theory Spec2Isabelle
  imports Main
begin

section \<open>SOAP multiRef flattening (package soap): a shallow embedding\<close>

text \<open>
  The package resolves document-local references of a SOAP 1.1 message: an element
  carrying \<^verbatim>\<open>href="#X"\<close> receives the content of the element carrying
  \<^verbatim>\<open>id="X"\<close>. File \<^verbatim>\<open>element.go\<close> rebuilds a tree of elements from the raw
  tokens of \<^verbatim>\<open>encoding/xml\<close> and indexes the elements by id; file
  \<^verbatim>\<open>soap.go\<close> rewrites the tree and builds the HTTP request of a call.

  Conventions of the embedding.
  \<^item> A byte slice and a Go string are both \<open>string\<close> (a list of 8-bit characters).
  \<^item> A Go function returning \<^verbatim>\<open>(x, error)\<close> returns \<open>error + 'a\<close>; every
    \<^verbatim>\<open>return nil, err\<close> is an \<open>Inl\<close>, so a failure carries no output.
  \<^item> The decoder \<^verbatim>\<open>xml.NewDecoder(bytes.NewReader(data))\<close> is used through
    \<^verbatim>\<open>RawToken\<close> only. Its answers on a buffer are a finite list of tokens followed
    by the error that ends the stream (\<^verbatim>\<open>io.EOF\<close> or a syntax error). The functions of the
    package take that function as the parameter \<open>tk\<close>; a decoder state is the list of
    tokens not yet read together with the final error. What is proved for every \<open>tk\<close>
    holds for the library decoder; \<open>rawTokens\<close> below models it on a fragment of XML and
    is used where a concrete document is run.
  \<^item> Writing to a \<^verbatim>\<open>bytes.Buffer\<close> and executing the package's templates on it cannot
    fail, so the templates are string-valued functions and the error branches after them
    are not reached.
  \<^item> \<^verbatim>\<open>walkMultiRef\<close> and \<^verbatim>\<open>flattenXML\<close> recurse through \<^verbatim>\<open>Children\<close>, which parses
    stored content again; nothing in the code bounds that recursion. They take a fuel
    argument that bounds the depth of the call stack, and return \<open>None\<close> when it is
    used up. A call that returns \<open>None\<close> for every fuel does not return in Go.
\<close>

subsection \<open>Data model\<close>

text \<open>\<^verbatim>\<open>xml.Name\<close>, \<^verbatim>\<open>xml.Attr\<close> (its field \<^verbatim>\<open>Name\<close> is \<open>AttrName\<close> here),
  and \<^verbatim>\<open>element\<close>, which embeds \<^verbatim>\<open>xml.StartElement\<close> (fields \<^verbatim>\<open>Name\<close>, \<^verbatim>\<open>Attr\<close>)
  and adds \<^verbatim>\<open>Data\<close>.\<close>

record name =
  Space :: string
  Local :: string

record attr =
  AttrName :: name
  Value :: string

record element =
  Name :: name
  Attr :: "attr list"
  Data :: string

text \<open>\<^verbatim>\<open>xml.Token\<close>: the token kinds \<^verbatim>\<open>RawToken\<close> can return.\<close>

datatype token =
    StartElement name "attr list"
  | EndElement name
  | CharData string
  | Comment string
  | ProcInst string string
  | Directive string

text \<open>The errors that occur: \<^verbatim>\<open>io.EOF\<close>, \<^verbatim>\<open>*xml.SyntaxError\<close> with its message,
  and the error \<^verbatim>\<open>"Unexpected end element " + tok.Name.Local\<close> of \<^verbatim>\<open>elementData\<close>
  with that local name. \<open>Unmodelled\<close> is not an error of Go: the decoder model \<open>rawTokens\<close>
  answers it on input outside the fragment it covers.\<close>

datatype error =
    EOF
  | SyntaxError string
  | UnexpectedEndElement string
  | Unmodelled

type_synonym tokenizer = "string \<Rightarrow> token list \<times> error"

subsection \<open>The templates of \<^verbatim>\<open>xmlTmpl\<close>\<close>

text \<open>Each \<^verbatim>\<open>{{define}}\<close> block is one function. \<^verbatim>\<open>text/template\<close> writes values as they
  are: attribute values are not escaped. \<^verbatim>\<open>{{if .Data}}\<close> is true for a non-empty slice.\<close>

definition tmplName :: "name \<Rightarrow> string" where
  "tmplName n = (if Space n \<noteq> [] then Space n @ '':'' else []) @ Local n"

definition tmplAttr :: "attr list \<Rightarrow> string" where
  "tmplAttr as = concat (map (\<lambda>a. '' '' @ tmplName (AttrName a) @ ''=\"'' @ Value a @ ''\"'') as)"

definition tmplStartTag :: "name \<Rightarrow> attr list \<Rightarrow> string" where
  "tmplStartTag n as = ''<'' @ tmplName n @ tmplAttr as @ ''>''"

definition tmplEndTag :: "name \<Rightarrow> string" where
  "tmplEndTag n = ''</'' @ tmplName n @ ''>''"

definition tmplEmptyTag :: "name \<Rightarrow> attr list \<Rightarrow> string" where
  "tmplEmptyTag n as = ''<'' @ tmplName n @ tmplAttr as @ '' />''"

definition tmplElement :: "element \<Rightarrow> string" where
  "tmplElement el =
     (if Data el \<noteq> [] then tmplStartTag (Name el) (Attr el) @ Data el @ tmplEndTag (Name el)
      else tmplEmptyTag (Name el) (Attr el))"

definition marshal :: "element \<Rightarrow> string" where
  "marshal el = tmplElement el"

text \<open>\<^verbatim>\<open>xml.EscapeText\<close>. The library decodes UTF-8 and replaces what is not a legal
  XML character by U+FFFD; here every byte from 0x80 on is copied, which is what the
  library does on well-formed UTF-8 (the only character data its decoder delivers).\<close>

definition escapeByte :: "char \<Rightarrow> string" where
  "escapeByte c =
     (if c = CHR 0x22 then ''&#34;''
      else if c = CHR 0x27 then ''&#39;''
      else if c = CHR ''&'' then ''&amp;''
      else if c = CHR ''<'' then ''&lt;''
      else if c = CHR ''>'' then ''&gt;''
      else if c = CHR 0x09 then ''&#x9;''
      else if c = CHR 0x0A then ''&#xA;''
      else if c = CHR 0x0D then ''&#xD;''
      else if (of_char c :: nat) < 0x20 then [CHR 0xEF, CHR 0xBF, CHR 0xBD]
      else [c])"

definition EscapeText :: "string \<Rightarrow> string" where
  "EscapeText s = concat (map escapeByte s)"

subsection \<open>Tree builder (\<^verbatim>\<open>element.go\<close>)\<close>

text \<open>\<^verbatim>\<open>elementData(p, start, buf)\<close>: the decoder \<open>p\<close> is the list of tokens still to come
  and the final error \<open>fin\<close>; the result is the buffer and the tokens left. When the tokens
  run out the loop ends with \<^verbatim>\<open>err\<close> set to \<open>fin\<close>, which \<^verbatim>\<open>return err\<close> hands back, also
  when it is \<^verbatim>\<open>io.EOF\<close>.\<close>

function elementData :: "token list \<Rightarrow> error \<Rightarrow> name \<Rightarrow> string \<Rightarrow> error + (string \<times> token list)" where
  "elementData [] fin start buf = Inl fin"
| "elementData (StartElement n as # p) fin start buf =
     (case elementData p fin n (buf @ tmplStartTag n as) of
        Inl e \<Rightarrow> Inl e
      | Inr (buf', p') \<Rightarrow> elementData p' fin start (buf' @ tmplEndTag n))"
| "elementData (CharData s # p) fin start buf = elementData p fin start (buf @ EscapeText s)"
| "elementData (EndElement n # p) fin start buf =
     (if n = start then Inr (buf, p) else Inl (UnexpectedEndElement (Local n)))"
| "elementData (Comment c # p) fin start buf = elementData p fin start buf"
| "elementData (ProcInst t i # p) fin start buf = elementData p fin start buf"
| "elementData (Directive d # p) fin start buf = elementData p fin start buf"
  by pat_completeness auto

lemma elementData_shorter:
  "elementData_dom (p, fin, start, buf) \<Longrightarrow> elementData p fin start buf = Inr (buf', p')
     \<Longrightarrow> length p' < length p"
proof (induction p fin start buf arbitrary: buf' p' rule: elementData.pinduct)
  case (2 n as p fin start buf)
  from "2.prems" "2.hyps" obtain b1 p1 where
    a: "elementData p fin n (buf @ tmplStartTag n as) = Inr (b1, p1)"
    and b: "elementData p1 fin start (b1 @ tmplEndTag n) = Inr (buf', p')"
    by (auto simp: elementData.psimps split: sum.splits)
  from "2.IH"(1)[OF a] have "length p1 < length p" .
  moreover from "2.IH"(2)[OF a refl b] have "length p' < length p1" .
  ultimately show ?case by simp
qed (auto simp: elementData.psimps split: if_splits)

termination elementData
proof (relation "measure (\<lambda>(p, fin, start, buf). length p)", goal_cases)
  case (3 n as p fin start buf x2 x y)
  then show ?case using elementData_shorter by fastforce
qed auto


lemma elementData_length:
  "elementData p fin start buf = Inr (buf', p') \<Longrightarrow> length p' < length p"
proof (induction p fin start buf arbitrary: buf' p' rule: elementData.induct)
  case (2 n as p fin start buf)
  from "2.prems" obtain b1 p1 where
    a: "elementData p fin n (buf @ tmplStartTag n as) = Inr (b1, p1)"
    and b: "elementData p1 fin start (b1 @ tmplEndTag n) = Inr (buf', p')"
    by (auto split: sum.splits)
  from "2.IH"(1)[OF a] have "length p1 < length p" .
  moreover from "2.IH"(2)[OF a refl b] have "length p' < length p1" .
  ultimately show ?case by simp
qed (auto split: if_splits)

text \<open>The loop of \<^verbatim>\<open>elements\<close>: at top level only a start element is acted on; any other
  token, an end element included, is skipped.\<close>

function elementsLoop :: "token list \<Rightarrow> error \<Rightarrow> element list \<Rightarrow> error + element list" where
  "elementsLoop [] fin elem = (if fin \<noteq> EOF then Inl fin else Inr elem)"
| "elementsLoop (StartElement n as # p) fin elem =
     (case elementData p fin n [] of
        Inl e \<Rightarrow> Inl e
      | Inr (buf, p') \<Rightarrow> elementsLoop p' fin (elem @ [\<lparr>Name = n, Attr = as, Data = buf\<rparr>]))"
| "elementsLoop (EndElement n # p) fin elem = elementsLoop p fin elem"
| "elementsLoop (CharData s # p) fin elem = elementsLoop p fin elem"
| "elementsLoop (Comment c # p) fin elem = elementsLoop p fin elem"
| "elementsLoop (ProcInst t i # p) fin elem = elementsLoop p fin elem"
| "elementsLoop (Directive d # p) fin elem = elementsLoop p fin elem"
  by pat_completeness auto
termination
  by (relation "measure (\<lambda>(p, fin, elem). length p)") (auto dest: elementData_length)

definition elements :: "tokenizer \<Rightarrow> string \<Rightarrow> error + element list" where
  "elements tk data = (case tk data of (p, fin) \<Rightarrow> elementsLoop p fin [])"

definition Children :: "tokenizer \<Rightarrow> element \<Rightarrow> element list" where
  "Children tk el = (case elements tk (Data el) of Inl err \<Rightarrow> [] | Inr elem \<Rightarrow> elem)"

subsection \<open>Attribute lookup\<close>

fun findAttr :: "attr list \<Rightarrow> string \<Rightarrow> string \<Rightarrow> attr option" where
  "findAttr [] space nm = None"
| "findAttr (v # list) space nm =
     (if Local (AttrName v) = nm \<and> (space = [] \<or> space = Space (AttrName v)) then Some v
      else findAttr list space nm)"

definition findHref :: "attr list \<Rightarrow> string option" where
  "findHref list =
     (case findAttr list [] ''href'' of
        Some a \<Rightarrow> (if length (Value a) > 1 \<and> hd (Value a) = CHR ''#'' then Some (tl (Value a)) else None)
      | None \<Rightarrow> None)"

definition findId :: "attr list \<Rightarrow> string option" where
  "findId list = (case findAttr list [] ''id'' of Some a \<Rightarrow> Some (Value a) | None \<Rightarrow> None)"


subsection \<open>Index pass: \<^verbatim>\<open>walkMultiRef\<close>, \<^verbatim>\<open>buildMRef\<close>\<close>

text \<open>The Go map is mutated in place; here it is passed and returned. \<open>walkChildren\<close> is the
  \<^verbatim>\<open>for _, el := range\<close> loop of \<^verbatim>\<open>walkMultiRef\<close> and of \<^verbatim>\<open>buildMRef\<close>.\<close>

type_synonym mrefs = "string \<rightharpoonup> element"

fun walkMultiRef :: "tokenizer \<Rightarrow> nat \<Rightarrow> element \<Rightarrow> mrefs \<Rightarrow> (error + mrefs) option"
  and walkChildren :: "tokenizer \<Rightarrow> nat \<Rightarrow> element list \<Rightarrow> mrefs \<Rightarrow> (error + mrefs) option" where
  "walkMultiRef tk 0 root mref = None"
| "walkMultiRef tk (Suc fuel) root mref =
     (case walkChildren tk fuel (Children tk root) mref of
        None \<Rightarrow> None
      | Some (Inl e) \<Rightarrow> Some (Inl e)
      | Some (Inr mref') \<Rightarrow>
          (case findId (Attr root) of
             Some i \<Rightarrow> Some (Inr (mref'(i \<mapsto> root)))
           | None \<Rightarrow> Some (Inr mref')))"
| "walkChildren tk fuel [] mref = Some (Inr mref)"
| "walkChildren tk fuel (el # children) mref =
     (case walkMultiRef tk fuel el mref of
        None \<Rightarrow> None
      | Some (Inl e) \<Rightarrow> Some (Inl e)
      | Some (Inr mref') \<Rightarrow> walkChildren tk fuel children mref')"

definition buildMRef :: "tokenizer \<Rightarrow> nat \<Rightarrow> string \<Rightarrow> (error + mrefs) option" where
  "buildMRef tk fuel data =
     (case elements tk data of
        Inl e \<Rightarrow> Some (Inl e)
      | Inr elem \<Rightarrow> walkChildren tk fuel elem Map.empty)"

subsection \<open>Substitution pass: \<^verbatim>\<open>flattenXML\<close>, \<^verbatim>\<open>Flatten\<close>, \<^verbatim>\<open>Unmarshal\<close> (\<^verbatim>\<open>soap.go\<close>)\<close>

text \<open>\<open>flattenChildren\<close> is the loop over \<^verbatim>\<open>children\<close> with its accumulator, and also the
  loop of \<^verbatim>\<open>Flatten\<close> over the top-level elements with \<^verbatim>\<open>buf\<close>.\<close>

text \<open>The href step of \<^verbatim>\<open>flattenXML\<close> (\<^verbatim>\<open>if href, ok := findHref(root.Attr); ok { if el, ok := mref[href]; ok { root.Data = el.Data } }\<close>):
  the element \<^verbatim>\<open>root\<close> as it is after it.\<close>

definition substitute :: "element \<Rightarrow> mrefs \<Rightarrow> element" where
  "substitute root mref =
     (case findHref (Attr root) of
        Some href \<Rightarrow> (case mref href of Some el \<Rightarrow> root\<lparr>Data := Data el\<rparr> | None \<Rightarrow> root)
      | None \<Rightarrow> root)"

fun flattenXML :: "tokenizer \<Rightarrow> nat \<Rightarrow> element \<Rightarrow> mrefs \<Rightarrow> (error + string) option"
  and flattenChildren :: "tokenizer \<Rightarrow> nat \<Rightarrow> element list \<Rightarrow> mrefs \<Rightarrow> string \<Rightarrow> (error + string) option" where
  "flattenXML tk 0 root mref = None"
| "flattenXML tk (Suc fuel) root mref =
     (if Local (Name root) = ''multiRef'' then Some (Inr [])
      else
        let root1 = substitute root mref;
            children = Children tk root1
        in if length children > 0 then
             (case flattenChildren tk fuel children mref [] of
                None \<Rightarrow> None
              | Some (Inl e) \<Rightarrow> Some (Inl e)
              | Some (Inr accum) \<Rightarrow> Some (Inr (marshal (root1\<lparr>Data := accum\<rparr>))))
           else Some (Inr (marshal root1)))"
| "flattenChildren tk fuel [] mref accum = Some (Inr accum)"
| "flattenChildren tk fuel (el # children) mref accum =
     (case flattenXML tk fuel el mref of
        None \<Rightarrow> None
      | Some (Inl e) \<Rightarrow> Some (Inl e)
      | Some (Inr data) \<Rightarrow> flattenChildren tk fuel children mref (accum @ data))"

definition Flatten :: "tokenizer \<Rightarrow> nat \<Rightarrow> string \<Rightarrow> (error + string) option" where
  "Flatten tk fuel data =
     (case buildMRef tk fuel data of
        None \<Rightarrow> None
      | Some (Inl e) \<Rightarrow> Some (Inl e)
      | Some (Inr mref) \<Rightarrow>
          (case elements tk data of
             Inl e \<Rightarrow> Some (Inl e)
           | Inr elem \<Rightarrow> flattenChildren tk fuel elem mref []))"

text \<open>\<^verbatim>\<open>xml.Unmarshal\<close> of the standard library is the parameter \<open>decode\<close>.\<close>

definition Unmarshal :: "tokenizer \<Rightarrow> (string \<Rightarrow> error + 'v) \<Rightarrow> nat \<Rightarrow> string \<Rightarrow> (error + 'v) option" where
  "Unmarshal tk decode fuel data =
     (case Flatten tk fuel data of
        None \<Rightarrow> None
      | Some (Inl e) \<Rightarrow> Some (Inl e)
      | Some (Inr out) \<Rightarrow> Some (decode out))"


subsection \<open>\<^verbatim>\<open>NewRequest\<close> (\<^verbatim>\<open>soap.go\<close>)\<close>

text \<open>\<^verbatim>\<open>http.Request\<close>, with the fields the function sets. \<^verbatim>\<open>http.Header\<close> is a map from
  canonical keys to lists of values, and \<^verbatim>\<open>Header.Set\<close> stores the one-element list under
  \<^verbatim>\<open>textproto.CanonicalMIMEHeaderKey(key)\<close>: the key is returned as it is when it holds a
  byte that is not a token byte of a header field; otherwise the first letter and every
  letter after a hyphen are made upper case and the others lower case.\<close>

type_synonym header = "string \<rightharpoonup> string list"

record ('u, 'b) Request =
  Method :: string
  URL :: 'u
  Header :: header
  Body :: 'b

definition validHeaderFieldByte :: "char \<Rightarrow> bool" where
  "validHeaderFieldByte c =
     (c \<in> set ''ABCDEFGHIJKLMNOPQRSTUVWXYZabcdefghijklmnopqrstuvwxyz0123456789!#$%&*+-.^_|~''
      \<or> c = CHR 0x27 \<or> c = CHR 0x60)"

definition isLower :: "char \<Rightarrow> bool" where
  "isLower c = (c \<in> set ''abcdefghijklmnopqrstuvwxyz'')"

definition isUpper :: "char \<Rightarrow> bool" where
  "isUpper c = (c \<in> set ''ABCDEFGHIJKLMNOPQRSTUVWXYZ'')"

fun canonicalLoop :: "bool \<Rightarrow> string \<Rightarrow> string" where
  "canonicalLoop upper [] = []"
| "canonicalLoop upper (c # cs) =
     (let c' = (if upper \<and> isLower c then char_of (of_char c - (32::nat))
                else if \<not> upper \<and> isUpper c then char_of (of_char c + (32::nat))
                else c)
      in c' # canonicalLoop (c' = CHR ''-'') cs)"

definition CanonicalMIMEHeaderKey :: "string \<Rightarrow> string" where
  "CanonicalMIMEHeaderKey s =
     (if list_all validHeaderFieldByte s then canonicalLoop True s else s)"

definition headerSet :: "header \<Rightarrow> string \<Rightarrow> string \<Rightarrow> header" where
  "headerSet h key v = h(CanonicalMIMEHeaderKey key \<mapsto> [v])"

text \<open>\<^verbatim>\<open>Header.Get\<close>: the first value stored under the canonical key, or the empty string.\<close>

definition headerGet :: "header \<Rightarrow> string \<Rightarrow> string" where
  "headerGet h key =
     (case h (CanonicalMIMEHeaderKey key) of
        None \<Rightarrow> []
      | Some [] \<Rightarrow> []
      | Some (v # vs) \<Rightarrow> v)"

text \<open>\<^verbatim>\<open>http.NewRequest(method, url, body)\<close> for a valid method: it fails when the URL does
  not parse (the parser of \<^verbatim>\<open>net/url\<close> is the parameter \<open>parseURL\<close>), and otherwise
  returns a request with that method, the parsed URL, an empty header and the body.\<close>

definition httpNewRequest ::
  "(string \<Rightarrow> 'e + 'u) \<Rightarrow> string \<Rightarrow> string \<Rightarrow> 'b \<Rightarrow> 'e + ('u, 'b) Request" where
  "httpNewRequest parseURL method url body =
     (case parseURL url of
        Inl err \<Rightarrow> Inl err
      | Inr u \<Rightarrow> Inr \<lparr>Method = method, URL = u, Header = Map.empty, Body = body\<rparr>)"

definition NewRequest :: "(string \<Rightarrow> 'e + 'u) \<Rightarrow> string \<Rightarrow> 'b \<Rightarrow> 'e + ('u, 'b) Request" where
  "NewRequest parseURL url body =
     (case httpNewRequest parseURL ''POST'' url body of
        Inl err \<Rightarrow> Inl err
      | Inr req \<Rightarrow>
          Inr (req\<lparr>Header :=
                 headerSet
                   (headerSet (headerSet (Header req) ''SOAPAction'' [])
                      ''Content-Type'' ''text/xml'')
                   ''charset'' ''utf-8''\<rparr>))"

subsection \<open>The raw tokens of \<^verbatim>\<open>encoding/xml\<close> on a fragment of XML\<close>

text \<open>
  A model of \<^verbatim>\<open>Decoder.RawToken\<close> (strict mode, no entity map, no charset reader), used
  to run concrete documents. It follows the library function by function (\<^verbatim>\<open>readName\<close>,
  \<^verbatim>\<open>name\<close>, \<^verbatim>\<open>nsname\<close>, \<^verbatim>\<open>space\<close>, \<^verbatim>\<open>text\<close>, \<^verbatim>\<open>attrval\<close>, \<^verbatim>\<open>rawToken\<close>); each
  function returns its result with the input left, and \<^verbatim>\<open>mustgetc\<close> at the end of the
  input is the syntax error \<^verbatim>\<open>unexpected EOF\<close>. Covered: start tags with attributes in
  single or double quotes, self-closing tags (a start element followed by its end
  element), end tags, character data with the five predefined entities and numeric
  character references below 128, the rewriting of carriage returns, and the syntax
  errors of these. Not covered, and answered by \<open>Unmodelled\<close>: processing instructions,
  comments, directives and CDATA sections (everything after \<^verbatim>\<open><?\<close> or \<^verbatim>\<open><!\<close>), bytes from
  0x80 on, and character references from 128 on.
\<close>

definition isSpaceByte :: "char \<Rightarrow> bool" where
  "isSpaceByte c = (c = CHR '' '' \<or> c = CHR 0x0D \<or> c = CHR 0x0A \<or> c = CHR 0x09)"

definition isNameByte :: "char \<Rightarrow> bool" where
  "isNameByte c = (c \<in> set ''ABCDEFGHIJKLMNOPQRSTUVWXYZabcdefghijklmnopqrstuvwxyz0123456789_:.-'')"

definition isNameStart :: "char \<Rightarrow> bool" where
  "isNameStart c = (c \<in> set ''ABCDEFGHIJKLMNOPQRSTUVWXYZabcdefghijklmnopqrstuvwxyz_:'')"

definition isName :: "string \<Rightarrow> bool" where
  "isName s = (case s of [] \<Rightarrow> False | c # cs \<Rightarrow> isNameStart c \<and> list_all isNameByte cs)"

definition unexpectedEOF :: error where
  "unexpectedEOF = SyntaxError ''unexpected EOF''"

definition readName :: "string \<Rightarrow> error + (string option \<times> string)" where
  "readName input =
     (case input of
        [] \<Rightarrow> Inl unexpectedEOF
      | b # bs \<Rightarrow>
          if \<not> isNameByte b then Inr (None, input)
          else if dropWhile isNameByte input = [] then Inl unexpectedEOF
          else Inr (Some (takeWhile isNameByte input), dropWhile isNameByte input))"

definition nameTok :: "string \<Rightarrow> error + (string option \<times> string)" where
  "nameTok input =
     (case readName input of
        Inl e \<Rightarrow> Inl e
      | Inr (None, r) \<Rightarrow> Inr (None, r)
      | Inr (Some s, r) \<Rightarrow>
          if \<not> isName s then Inl (SyntaxError (''invalid XML name: '' @ s)) else Inr (Some s, r))"

definition nsname :: "string \<Rightarrow> error + (name option \<times> string)" where
  "nsname input =
     (case nameTok input of
        Inl e \<Rightarrow> Inl e
      | Inr (None, r) \<Rightarrow> Inr (None, r)
      | Inr (Some s, r) \<Rightarrow>
          if count_list s CHR '':'' > 1 then Inr (None, r)
          else
            let space = takeWhile (\<lambda>c. c \<noteq> CHR '':'') s;
                local = drop (Suc (length space)) s
            in if CHR '':'' \<notin> set s \<or> space = [] \<or> local = []
               then Inr (Some \<lparr>Space = [], Local = s\<rparr>, r)
               else Inr (Some \<lparr>Space = space, Local = local\<rparr>, r))"

definition space :: "string \<Rightarrow> string" where
  "space input = dropWhile isSpaceByte input"

definition digitVal :: "char \<Rightarrow> nat" where
  "digitVal c =
     (let n = of_char c in
      if c \<in> set ''0123456789'' then n - 48
      else if c \<in> set ''abcdef'' then n - 87
      else n - 55)"

definition parseUint :: "string \<Rightarrow> nat \<Rightarrow> nat" where
  "parseUint s base = foldl (\<lambda>acc c. acc * base + digitVal c) 0 s"

definition entityTable :: "string \<Rightarrow> string option" where
  "entityTable s =
     (if s = ''lt'' then Some ''<''
      else if s = ''gt'' then Some ''>''
      else if s = ''amp'' then Some ''&''
      else if s = ''apos'' then Some [CHR 0x27]
      else if s = ''quot'' then Some [CHR 0x22]
      else None)"

definition invalidEntity :: "string \<Rightarrow> error" where
  "invalidEntity ent =
     SyntaxError (''invalid character entity '' @ ent @
       (if last ent \<noteq> CHR '';'' then '' (no semicolon)'' else []))"

definition entityRef :: "string \<Rightarrow> error + (string \<times> string)" where
  "entityRef input =
     (case input of
        [] \<Rightarrow> Inl unexpectedEOF
      | b # bs \<Rightarrow>
          if b = CHR ''#'' then
            (case bs of
               [] \<Rightarrow> Inl unexpectedEOF
             | c # cs \<Rightarrow>
                 let hex = (c = CHR ''x'');
                     ds = (if hex then cs else bs);
                     isDigit = (\<lambda>d. d \<in> set ''0123456789'' \<or> (hex \<and> d \<in> set ''abcdefABCDEF''));
                     s = takeWhile isDigit ds;
                     r = dropWhile isDigit ds;
                     pre = (if hex then ''&#x'' else ''&#'')
                 in if ds = [] then Inl unexpectedEOF
                    else case r of
                      [] \<Rightarrow> Inl unexpectedEOF
                    | e # r' \<Rightarrow>
                        if e \<noteq> CHR '';'' then Inl (invalidEntity (pre @ s))
                        else
                          let n = parseUint s (if hex then 16 else 10) in
                          if s = [] \<or> n > 0x10FFFF then Inl (invalidEntity (pre @ s @ '';''))
                          else if n < 0x80 then Inr ([char_of n], r')
                          else Inl Unmodelled)
          else
            (case readName input of
               Inl e \<Rightarrow> Inl e
             | Inr (nm, r) \<Rightarrow>
                 let s = (case nm of None \<Rightarrow> [] | Some s \<Rightarrow> s) in
                 (case r of
                    [] \<Rightarrow> Inl unexpectedEOF
                  | e # r' \<Rightarrow>
                      if e \<noteq> CHR '';'' then Inl (invalidEntity (''&'' @ s))
                      else if isName s then
                        (case entityTable s of
                           Some tx \<Rightarrow> Inr (tx, r')
                         | None \<Rightarrow> Inl (invalidEntity (''&'' @ s @ '';'')))
                      else Inl (invalidEntity (''&'' @ s @ '';'')))))"

lemma dropWhile_Cons_length: "dropWhile P xs = e # r \<Longrightarrow> length r < length xs"
  using length_dropWhile_le [of P xs] by simp

lemma dropWhile_length_Suc: "length (dropWhile P xs) < Suc (length xs)"
  by (simp add: le_imp_less_Suc length_dropWhile_le)

lemma readName_length:
  "readName input = Inr (nm, r) \<Longrightarrow> length r \<le> length input"
  by (auto simp: readName_def le_SucI length_dropWhile_le split: list.splits if_splits)

lemma readName_Some_length:
  "readName input = Inr (Some s, r) \<Longrightarrow> length r < length input"
  by (auto simp: readName_def dropWhile_length_Suc split: list.splits if_splits)

lemma entityRef_length:
  assumes "entityRef input = Inr (tx, r)"
  shows "length r < length input"
proof (cases input)
  case Nil
  with assms show ?thesis by (simp add: entityRef_def)
next
  case (Cons b bs)
  show ?thesis
  proof (cases "b = CHR ''#''")
    case True
    with assms Cons obtain c cs where bs: "bs = c # cs"
      by (cases bs) (auto simp: entityRef_def)
    define hex where "hex = (c = CHR ''x'')"
    define ds where "ds = (if hex then cs else bs)"
    define isDigit where "isDigit = (\<lambda>d. d \<in> set ''0123456789'' \<or> (hex \<and> d \<in> set ''abcdefABCDEF''))"
    from assms Cons True bs obtain e where "dropWhile isDigit ds = e # r"
      unfolding entityRef_def hex_def ds_def isDigit_def
      by (simp add: Let_def split: if_splits list.splits)
    then have "length r < length ds" by (rule dropWhile_Cons_length)
    moreover have "length ds \<le> length bs" by (simp add: ds_def bs)
    ultimately show ?thesis using Cons by simp
  next
    case False
    with assms Cons obtain nm r0 e where rn: "readName input = Inr (nm, r0)" and r0: "r0 = e # r"
      unfolding entityRef_def
      by (auto simp: Let_def split: sum.splits list.splits if_splits option.splits)
    from readName_length [OF rn] r0 show ?thesis by simp
  qed
qed


definition hexDigit :: "nat \<Rightarrow> char" where
  "hexDigit n = (''0123456789ABCDEF'') ! (n mod 16)"

definition isInCharacterRange :: "char \<Rightarrow> bool" where
  "isInCharacterRange c =
     (c = CHR 0x09 \<or> c = CHR 0x0A \<or> c = CHR 0x0D \<or> (of_char c :: nat) \<ge> 0x20)"

definition illegalCharacter :: "char \<Rightarrow> error" where
  "illegalCharacter c =
     SyntaxError (''illegal character code U+00'' @
       [hexDigit (of_char c div 16), hexDigit (of_char c)])"

definition checkText :: "string \<Rightarrow> string \<Rightarrow> error + (string \<times> string)" where
  "checkText data rest =
     (case filter (\<lambda>c. \<not> isInCharacterRange c) data of
        [] \<Rightarrow> Inr (data, rest)
      | c # cs \<Rightarrow> Inl (illegalCharacter c))"

function textLoop :: "char option \<Rightarrow> char \<Rightarrow> char \<Rightarrow> string \<Rightarrow> string \<Rightarrow> error + (string \<times> string)" where
  "textLoop quote b0 b1 buf [] = checkText buf []"
| "textLoop quote b0 b1 buf (b # bs) =
     (if b0 = CHR '']'' \<and> b1 = CHR '']'' \<and> b = CHR ''>'' then
        Inl (SyntaxError ''unescaped ]]> not in CDATA section'')
      else if b = CHR ''<'' then
        (if quote \<noteq> None then Inl (SyntaxError ''unescaped < inside quoted string'')
         else checkText buf (b # bs))
      else if quote = Some b then checkText buf bs
      else if b = CHR ''&'' then
        (case entityRef bs of
           Inl e \<Rightarrow> Inl e
         | Inr (tx, rest) \<Rightarrow> textLoop quote (CHR 0x00) (CHR 0x00) (buf @ tx) rest)
      else
        textLoop quote b1 b
          (if b = CHR 0x0D then buf @ [CHR 0x0A]
           else if b1 = CHR 0x0D \<and> b = CHR 0x0A then buf
           else buf @ [b])
          bs)"
  by pat_completeness auto
termination
  by (relation "measure (\<lambda>(quote, b0, b1, buf, input). length input)")
     (auto dest: entityRef_length)

definition readText :: "char option \<Rightarrow> string \<Rightarrow> error + (string \<times> string)" where
  "readText quote input = textLoop quote (CHR 0x00) (CHR 0x00) [] input"

definition attrval :: "string \<Rightarrow> error + (string \<times> string)" where
  "attrval input =
     (case input of
        [] \<Rightarrow> Inl unexpectedEOF
      | b # bs \<Rightarrow>
          if b = CHR 0x22 \<or> b = CHR 0x27 then readText (Some b) bs
          else Inl (SyntaxError ''unquoted or missing attribute value in element''))"

lemma checkText_rest: "checkText data rest = Inr (d, r) \<Longrightarrow> r = rest"
  by (auto simp: checkText_def split: list.splits)

lemma textLoop_length:
  "textLoop quote b0 b1 buf input = Inr (d, r) \<Longrightarrow> length r \<le> length input"
proof (induction quote b0 b1 buf input rule: textLoop.induct)
  case (1 quote b0 b1 buf)
  then show ?case by (auto dest: checkText_rest)
next
  case (2 quote b0 b1 buf b bs)
  consider (stop) "(b0 = CHR '']'' \<and> b1 = CHR '']'' \<and> b = CHR ''>'') \<or> b = CHR ''<'' \<or> quote = Some b"
    | (ent) "\<not> (b0 = CHR '']'' \<and> b1 = CHR '']'' \<and> b = CHR ''>'')" "b \<noteq> CHR ''<''"
        "quote \<noteq> Some b" "b = CHR ''&''"
    | (plain) "\<not> (b0 = CHR '']'' \<and> b1 = CHR '']'' \<and> b = CHR ''>'')" "b \<noteq> CHR ''<''"
        "quote \<noteq> Some b" "b \<noteq> CHR ''&''"
    by blast
  then show ?case
  proof cases
    case stop
    with "2.prems" show ?thesis
      by (auto split: if_splits dest!: checkText_rest)
  next
    case ent
    with "2.prems" obtain tx rest where
      e: "entityRef bs = Inr (tx, rest)"
      and t: "textLoop quote (CHR 0x00) (CHR 0x00) (buf @ tx) rest = Inr (d, r)"
      by (auto split: sum.splits)
    from "2.IH"(1) [OF ent e refl t] entityRef_length [OF e] show ?thesis by simp
  next
    case plain
    with "2.prems" "2.IH"(2) [OF plain] show ?thesis by simp
  qed
qed

lemma attrval_length:
  "attrval input = Inr (v, r) \<Longrightarrow> length r < length input"
  by (auto simp: attrval_def readText_def split: list.splits if_splits dest!: textLoop_length)

lemma nsname_length:
  "nsname input = Inr (Some nm, r) \<Longrightarrow> length r < length input"
  by (auto simp: nsname_def nameTok_def Let_def split: sum.splits option.splits if_splits
      dest!: readName_Some_length)

lemma space_length: "length (space input) \<le> length input"
  by (simp add: space_def length_dropWhile_le)

function attrLoop :: "string \<Rightarrow> attr list \<Rightarrow> error + (attr list \<times> bool \<times> string)" where
  "attrLoop input acc =
     (case space input of
        [] \<Rightarrow> Inl unexpectedEOF
      | b # bs \<Rightarrow>
          if b = CHR ''/'' then
            (case bs of
               [] \<Rightarrow> Inl unexpectedEOF
             | c # cs \<Rightarrow>
                 if c \<noteq> CHR ''>'' then Inl (SyntaxError ''expected /> in element'')
                 else Inr (acc, True, cs))
          else if b = CHR ''>'' then Inr (acc, False, bs)
          else
            (case nsname (b # bs) of
               Inl e \<Rightarrow> Inl e
             | Inr (None, r) \<Rightarrow> Inl (SyntaxError ''expected attribute name in element'')
             | Inr (Some nm, r) \<Rightarrow>
                 (case space r of
                    [] \<Rightarrow> Inl unexpectedEOF
                  | c # cs \<Rightarrow>
                      if c \<noteq> CHR ''='' then Inl (SyntaxError ''attribute name without = in element'')
                      else
                        (case attrval (space cs) of
                           Inl e \<Rightarrow> Inl e
                         | Inr (v, rest) \<Rightarrow> attrLoop rest (acc @ [\<lparr>AttrName = nm, Value = v\<rparr>])))))"
  by pat_completeness auto
termination
proof (relation "measure (\<lambda>(input, acc). length input)", goal_cases)
  case 1
  show ?case by simp
next
  case (2 input acc b bs x2 x y x2a c cs x2b xa ya)
  have "length ya < length (space cs)" using 2 by (auto dest: attrval_length)
  also have "\<dots> \<le> length cs" by (rule space_length)
  also have "\<dots> < length (space y)" using 2 by simp
  also have "\<dots> \<le> length y" by (rule space_length)
  also have "\<dots> < length (b # bs)" using 2 by (auto dest: nsname_length)
  also have "\<dots> \<le> length input" using 2 space_length [of input] by simp
  finally show ?case by simp
qed

declare attrLoop.simps [simp del]

lemma attrLoop_length:
  "attrLoop input acc = Inr (as, closed, r) \<Longrightarrow> length r < length input"
proof (induction input acc rule: attrLoop.induct)
  case (1 input acc)
  from "1.prems" obtain b bs where sp: "space input = b # bs"
    by (subst (asm) attrLoop.simps) (auto split: list.splits)
  have le: "length (b # bs) \<le> length input" using space_length [of input] sp by simp
  show ?case
  proof (cases "b = CHR ''/'' \<or> b = CHR ''>''")
    case True
    with "1.prems" sp le show ?thesis
      by (subst (asm) attrLoop.simps) (auto split: list.splits if_splits)
  next
    case False
    with "1.prems" sp obtain nm r1 c cs v rest where
      ns: "nsname (b # bs) = Inr (Some nm, r1)" and sr: "space r1 = c # cs"
      and ceq: "c = CHR ''=''"
      and av: "attrval (space cs) = Inr (v, rest)"
      and rec: "attrLoop rest (acc @ [\<lparr>AttrName = nm, Value = v\<rparr>]) = Inr (as, closed, r)"
      by (subst (asm) attrLoop.simps)
         (auto split: list.splits if_splits sum.splits option.splits)
    from False have nb: "b \<noteq> CHR ''/''" "b \<noteq> CHR ''>''" by auto
    have "\<not> c \<noteq> CHR ''=''" using ceq by simp
    from "1.IH" [OF sp nb ns refl refl sr this av refl rec]
    have "length r < length rest" .
    also have "\<dots> < length (space cs)" using av by (rule attrval_length)
    also have "\<dots> \<le> length cs" by (rule space_length)
    also have "\<dots> < length (space r1)" using sr by simp
    also have "\<dots> \<le> length r1" by (rule space_length)
    also have "\<dots> < length (b # bs)" using ns by (rule nsname_length)
    finally show ?thesis using le by simp
  qed
qed


text \<open>One call of \<^verbatim>\<open>rawToken\<close>, and the call after it when the element is
  self-closing (\<^verbatim>\<open>needClose\<close>): that call returns the end element and reads nothing.\<close>

definition rawToken :: "string \<Rightarrow> error + (token list \<times> string)" where
  "rawToken input =
     (case input of
        [] \<Rightarrow> Inl EOF
      | b # bs \<Rightarrow>
          if b \<noteq> CHR ''<'' then
            (case readText None input of
               Inl e \<Rightarrow> Inl e
             | Inr (data, rest) \<Rightarrow> Inr ([CharData data], rest))
          else
            (case bs of
               [] \<Rightarrow> Inl unexpectedEOF
             | c # cs \<Rightarrow>
                 if c = CHR ''/'' then
                   (case nsname cs of
                      Inl e \<Rightarrow> Inl e
                    | Inr (None, r) \<Rightarrow> Inl (SyntaxError ''expected element name after </'')
                    | Inr (Some nm, r) \<Rightarrow>
                        (case space r of
                           [] \<Rightarrow> Inl unexpectedEOF
                         | d # rest \<Rightarrow>
                             if d \<noteq> CHR ''>'' then
                               Inl (SyntaxError (''invalid characters between </'' @ Local nm @ '' and >''))
                             else Inr ([EndElement nm], rest)))
                 else if c = CHR ''?'' \<or> c = CHR ''!'' then Inl Unmodelled
                 else
                   (case nsname bs of
                      Inl e \<Rightarrow> Inl e
                    | Inr (None, r) \<Rightarrow> Inl (SyntaxError ''expected element name after <'')
                    | Inr (Some nm, r) \<Rightarrow>
                        (case attrLoop r [] of
                           Inl e \<Rightarrow> Inl e
                         | Inr (as, closed, rest) \<Rightarrow>
                             Inr (StartElement nm as # (if closed then [EndElement nm] else []), rest)))))"

lemma textLoop_consumes:
  assumes "textLoop quote b0 b1 buf (b # bs) = Inr (d, r)" and "b \<noteq> CHR ''<''"
  shows "length r \<le> length bs"
proof -
  consider (stop) "quote = Some b \<or> (b0 = CHR '']'' \<and> b1 = CHR '']'' \<and> b = CHR ''>'')"
    | (ent) "\<not> (b0 = CHR '']'' \<and> b1 = CHR '']'' \<and> b = CHR ''>'')"
        "quote \<noteq> Some b" "b = CHR ''&''"
    | (plain) "\<not> (b0 = CHR '']'' \<and> b1 = CHR '']'' \<and> b = CHR ''>'')"
        "quote \<noteq> Some b" "b \<noteq> CHR ''&''"
    by blast
  then show ?thesis
  proof cases
    case stop
    with assms show ?thesis by (auto split: if_splits dest!: checkText_rest)
  next
    case ent
    with assms obtain tx rest where
      e: "entityRef bs = Inr (tx, rest)"
      and t: "textLoop quote (CHR 0x00) (CHR 0x00) (buf @ tx) rest = Inr (d, r)"
      by (auto split: sum.splits)
    from textLoop_length [OF t] entityRef_length [OF e] show ?thesis by simp
  next
    case plain
    with assms obtain buf' where "textLoop quote b1 b buf' bs = Inr (d, r)" by simp
    then show ?thesis by (rule textLoop_length)
  qed
qed

lemma rawToken_length:
  assumes "rawToken input = Inr (ts, rest)"
  shows "length rest < length input"
proof (cases input)
  case Nil
  with assms show ?thesis by (simp add: rawToken_def)
next
  case (Cons b bs)
  show ?thesis
  proof (cases "b = CHR ''<''")
    case False
    with assms Cons obtain data where t: "textLoop None (CHR 0x00) (CHR 0x00) [] (b # bs) = Inr (data, rest)"
      by (auto simp: rawToken_def readText_def split: sum.splits)
    from textLoop_consumes [OF t False] Cons show ?thesis by simp
  next
    case True
    with assms Cons obtain c cs where bs: "bs = c # cs"
      by (cases bs) (auto simp: rawToken_def)
    show ?thesis
    proof (cases "c = CHR ''/''")
      case T2: True
      with assms Cons True bs obtain nm r d where
        ns: "nsname cs = Inr (Some nm, r)" and sp: "space r = d # rest"
        by (auto simp: rawToken_def split: sum.splits option.splits list.splits if_splits)
      have "length rest < length (space r)" using sp by simp
      also have "\<dots> \<le> length r" by (rule space_length)
      also have "\<dots> < length cs" using ns by (rule nsname_length)
      finally show ?thesis using Cons bs by simp
    next
      case F2: False
      with assms Cons True bs obtain nm r as closed where
        ns: "nsname bs = Inr (Some nm, r)" and al: "attrLoop r [] = Inr (as, closed, rest)"
        by (auto simp: rawToken_def split: sum.splits option.splits list.splits if_splits)
      have "length rest < length r" using al by (rule attrLoop_length)
      also have "\<dots> < length bs" using ns by (rule nsname_length)
      finally show ?thesis using Cons by simp
    qed
  qed
qed

function tokens :: "string \<Rightarrow> token list \<times> error" where
  "tokens input =
     (case rawToken input of
        Inl e \<Rightarrow> ([], e)
      | Inr (ts, rest) \<Rightarrow> (case tokens rest of (ts', e) \<Rightarrow> (ts @ ts', e)))"
  by pat_completeness auto
termination
proof (relation "measure length", goal_cases)
  case 1
  show ?case by simp
next
  case (2 input x2 x y)
  then show ?case using rawToken_length [of input x y] by simp
qed

declare tokens.simps [simp del]

definition rawTokens :: tokenizer where
  "rawTokens data =
     (if list_ex (\<lambda>c. (of_char c :: nat) \<ge> 0x80) data then ([], Unmodelled) else tokens data)"


subsection \<open>Reference definitions for the claims\<close>

text \<open>The elements \<open>walkMultiRef\<close> reaches, in the order in which it records them: it
  descends through \<open>Children\<close> (the stored content parsed again) and comes to an element
  after that element's children. The fuel bounds the depth as in \<open>walkMultiRef\<close>.\<close>

fun visitOrder :: "tokenizer \<Rightarrow> nat \<Rightarrow> element \<Rightarrow> element list option"
  and visitAll :: "tokenizer \<Rightarrow> nat \<Rightarrow> element list \<Rightarrow> element list option" where
  "visitOrder tk 0 root = None"
| "visitOrder tk (Suc fuel) root =
     (case visitAll tk fuel (Children tk root) of
        None \<Rightarrow> None
      | Some vs \<Rightarrow> Some (vs @ [root]))"
| "visitAll tk fuel [] = Some []"
| "visitAll tk fuel (el # els) =
     (case visitOrder tk fuel el of
        None \<Rightarrow> None
      | Some v \<Rightarrow> (case visitAll tk fuel els of None \<Rightarrow> None | Some vs \<Rightarrow> Some (v @ vs)))"

text \<open>Recording one visited element in the Reference Index, and the index after a
  sequence of visits.\<close>

definition recordId :: "element \<Rightarrow> mrefs \<Rightarrow> mrefs" where
  "recordId el mref = (case findId (Attr el) of Some i \<Rightarrow> mref(i \<mapsto> el) | None \<Rightarrow> mref)"

definition indexOf :: "element list \<Rightarrow> mrefs \<Rightarrow> mrefs" where
  "indexOf vs mref = fold recordId vs mref"

text \<open>The last element of a visit sequence that carries the id \<open>i\<close>.\<close>

definition lastWithId :: "string \<Rightarrow> element list \<Rightarrow> element option" where
  "lastWithId i vs =
     (case filter (\<lambda>el. findId (Attr el) = Some i) vs of
        [] \<Rightarrow> None
      | y # ys \<Rightarrow> Some (last (y # ys)))"

text \<open>An end tag that does not match the start tag open at that point of a token
  stream: \<open>mismatch opened p\<close> reads \<open>p\<close> with the stack \<open>opened\<close> of open start tags
  (innermost first) and answers the local name of the first end tag whose name differs
  from the innermost open one. An end tag met while no start tag is open closes nothing
  and is passed over.\<close>

fun mismatch :: "name list \<Rightarrow> token list \<Rightarrow> string option" where
  "mismatch opened [] = None"
| "mismatch opened (StartElement n as # p) = mismatch (n # opened) p"
| "mismatch [] (EndElement n # p) = mismatch [] p"
| "mismatch (m # opened) (EndElement n # p) =
     (if n = m then mismatch opened p else Some (Local n))"
| "mismatch opened (CharData s # p) = mismatch opened p"
| "mismatch opened (Comment c # p) = mismatch opened p"
| "mismatch opened (ProcInst t i # p) = mismatch opened p"
| "mismatch opened (Directive d # p) = mismatch opened p"

text \<open>A document as a tree: an element with its name, attributes and children, or
  character data (unescaped, as the decoder delivers it). \<open>toks\<close> is the token stream of
  a tree and \<open>ser\<close> the text \<^verbatim>\<open>elementData\<close> writes for it.\<close>

datatype node = Elem name "attr list" "node list" | Text string

fun toks :: "node \<Rightarrow> token list" where
  "toks (Elem n as cs) = StartElement n as # concat (map toks cs) @ [EndElement n]"
| "toks (Text s) = [CharData s]"

fun ser :: "node \<Rightarrow> string" where
  "ser (Elem n as cs) = tmplStartTag n as @ concat (map ser cs) @ tmplEndTag n"
| "ser (Text s) = EscapeText s"

text \<open>The top-level elements of a forest, with their content serialised: what \<open>elements\<close>
  makes of its token stream.\<close>

fun topElements :: "node list \<Rightarrow> element list" where
  "topElements [] = []"
| "topElements (Elem n as cs # ts) = \<lparr>Name = n, Attr = as, Data = concat (map ser cs)\<rparr> # topElements ts"
| "topElements (Text s # ts) = topElements ts"

text \<open>The decoder reads the serialised children of every element of the tree back as
  the token stream of those children.\<close>

fun readsBack :: "tokenizer \<Rightarrow> node \<Rightarrow> bool" where
  "readsBack tk (Elem n as cs) =
     (tk (concat (map ser cs)) = (concat (map toks cs), EOF) \<and> list_all (readsBack tk) cs)"
| "readsBack tk (Text s) = True"

text \<open>No element of the tree is named \<open>multiRef\<close> and none is a placeholder (\<open>findHref\<close>
  finds nothing in its attributes).\<close>

fun plain :: "node \<Rightarrow> bool" where
  "plain (Elem n as cs) = (Local n \<noteq> ''multiRef'' \<and> findHref as = None \<and> list_all plain cs)"
| "plain (Text s) = True"

fun height :: "node \<Rightarrow> nat" where
  "height (Elem n as cs) = Suc (fold max (map height cs) 0)"
| "height (Text s) = 0"


text \<open>The elements of a document tree in document order, depth first, the children of
  an element before the element itself; each element with its name, its attributes and
  its serialised content.\<close>

fun documentOrder :: "node \<Rightarrow> element list" where
  "documentOrder (Elem n as cs) =
     concat (map documentOrder cs) @ [\<lparr>Name = n, Attr = as, Data = concat (map ser cs)\<rparr>]"
| "documentOrder (Text s) = []"








subsection \<open>Documents that are run\<close>

text \<open>All the elements of a document, in the visit order of the index pass.\<close>

definition documentElements :: "tokenizer \<Rightarrow> nat \<Rightarrow> string \<Rightarrow> element list option" where
  "documentElements tk fuel data =
     (case elements tk data of Inl e \<Rightarrow> None | Inr es \<Rightarrow> visitAll tk fuel es)"

text \<open>The document of \<^verbatim>\<open>ExampleUnmarshal\<close>, without its white space, and what \<^verbatim>\<open>Flatten\<close>
  makes of it.\<close>

definition exampleDoc :: string where
  "exampleDoc = ''<Envelope><Header><sessionId href=\"#id0\"/></Header><Body><multiRef id=\"id0\">123456</multiRef></Body></Envelope>''"

definition exampleFlat :: string where
  "exampleFlat = ''<Envelope><Header><sessionId href=\"#id0\">123456</sessionId></Header><Body /></Envelope>''"

text \<open>A document whose end tag \<^verbatim>\<open></a>\<close> meets the open start tag \<^verbatim>\<open><b>\<close>.\<close>

definition mismatchDoc :: string where
  "mismatchDoc = ''<a><b></a>''"

text \<open>An element without namespace prefixes, from its local name, its attributes (local
  name and value) and its content.\<close>

definition elt :: "string \<Rightarrow> (string \<times> string) list \<Rightarrow> string \<Rightarrow> element" where
  "elt local attrs content =
     \<lparr>Name = \<lparr>Space = [], Local = local\<rparr>,
      Attr = map (\<lambda>(k, v). \<lparr>AttrName = \<lparr>Space = [], Local = k\<rparr>, Value = v\<rparr>) attrs,
      Data = content\<rparr>"

text \<open>Two placeholders and the two \<open>multiRef\<close> elements they refer to, as siblings.\<close>

definition twoRefsSiblings :: "element list" where
  "twoRefsSiblings =
     [elt ''x'' [(''href'', ''#a'')] [], elt ''y'' [(''href'', ''#b'')] [],
      elt ''multiRef'' [(''id'', ''a'')] ''1'', elt ''multiRef'' [(''id'', ''b'')] ''2'']"

text \<open>A placeholder with content of its own whose id is nowhere, and an empty one.\<close>

definition missingTextDoc :: string where
  "missingTextDoc = ''<a href=\"#X\">text</a>''"

definition missingDoc :: string where
  "missingDoc = ''<a href=\"#missing\"/>''"

text \<open>The href \<^verbatim>\<open>#\<close> beside an element whose id is the empty string.\<close>

definition emptyIdDoc :: string where
  "emptyIdDoc = ''<a href=\"#\"/><b id=\"\">x</b>''"

text \<open>An attribute value that holds a double quote, and a document that ends inside a tag.\<close>

definition quoteDoc :: string where
  "quoteDoc = ''<a><b x='\"'/></a>''"

definition truncatedDoc :: string where
  "truncatedDoc = ''<a><b''"

text \<open>A placeholder inside the element it refers to; the same under an element named
  \<open>multiRef\<close>; two empty siblings that refer to each other.\<close>

definition cycleDoc :: string where
  "cycleDoc = ''<a id=\"x\"><b href=\"#x\"/></a>''"

definition cycleA :: element where
  "cycleA = elt ''a'' [(''id'', ''x'')] ''<b href=\"#x\"></b>''"

definition cycleB :: element where
  "cycleB = elt ''b'' [(''href'', ''#x'')] []"

definition hiddenCycleDoc :: string where
  "hiddenCycleDoc = ''<multiRef id=\"x\"><b href=\"#x\"/></multiRef>''"

definition mutualDoc :: string where
  "mutualDoc = ''<a id=\"A\" href=\"#B\"/><b id=\"B\" href=\"#A\"/>''"




text \<open>An id on an element whose parent's stored content does not parse again; the same id
  on two elements.\<close>

definition lostIdDoc :: string where
  "lostIdDoc = ''<a><b id=\"q\" x='\"'/></a>''"

definition lostIdTree :: "node list" where
  "lostIdTree =
     [Elem \<lparr>Space = [], Local = ''a''\<rparr> []
        [Elem \<lparr>Space = [], Local = ''b''\<rparr>
           [\<lparr>AttrName = \<lparr>Space = [], Local = ''id''\<rparr>, Value = ''q''\<rparr>,
            \<lparr>AttrName = \<lparr>Space = [], Local = ''x''\<rparr>, Value = [CHR 0x22]\<rparr>] []]]"

definition sameIdDoc :: string where
  "sameIdDoc = ''<r><a id=\"k\">1</a><b id=\"k\"><c id=\"j\"/></b></r>''"

definition sameIdTree :: "node list" where
  "sameIdTree =
     [Elem \<lparr>Space = [], Local = ''r''\<rparr> []
        [Elem \<lparr>Space = [], Local = ''a''\<rparr>
           [\<lparr>AttrName = \<lparr>Space = [], Local = ''id''\<rparr>, Value = ''k''\<rparr>] [Text ''1''],
         Elem \<lparr>Space = [], Local = ''b''\<rparr>
           [\<lparr>AttrName = \<lparr>Space = [], Local = ''id''\<rparr>, Value = ''k''\<rparr>]
           [Elem \<lparr>Space = [], Local = ''c''\<rparr>
              [\<lparr>AttrName = \<lparr>Space = [], Local = ''id''\<rparr>, Value = ''j''\<rparr>] []]]]"





text \<open>A placeholder with a child element and character data of its own, whose id is nowhere.\<close>

definition missingMixedDoc :: string where
  "missingMixedDoc = ''<a href=\"#X\">t<b/>u</a>''"

section \<open>Properties\<close>

subsection \<open>The substitution pass and the index pass return no error; fuel\<close>

text \<open>One step of \<open>flattenXML\<close>, written with its three outcomes.\<close>

lemma flattenXML_Suc:
  "flattenXML tk (Suc n) root mref =
     (if Local (Name root) = ''multiRef'' then Some (Inr [])
      else if Children tk (substitute root mref) = [] then Some (Inr (marshal (substitute root mref)))
      else (case flattenChildren tk n (Children tk (substitute root mref)) mref [] of
              None \<Rightarrow> None
            | Some (Inl e) \<Rightarrow> Some (Inl e)
            | Some (Inr accum) \<Rightarrow> Some (Inr (marshal ((substitute root mref)\<lparr>Data := accum\<rparr>)))))"
  by (simp add: Let_def)

declare flattenXML.simps(2) [simp del]

text \<open>No \<^verbatim>\<open>return nil, err\<close> of \<^verbatim>\<open>flattenXML\<close> or \<^verbatim>\<open>walkMultiRef\<close> is reached: the only
  errors they could pass on are their own.\<close>

lemma flatten_no_error:
  "flattenXML tk n root mref \<noteq> Some (Inl e)"
  "flattenChildren tk n els mref acc \<noteq> Some (Inl e)"
proof (induction tk n root mref and tk n els mref acc
    rule: flattenXML_flattenChildren.induct)
  case (2 tk fuel root mref)
  show ?case
  proof (cases "Local (Name root) \<noteq> ''multiRef'' \<and> Children tk (substitute root mref) \<noteq> []")
    case True
    then have "flattenChildren tk fuel (Children tk (substitute root mref)) mref [] \<noteq> Some (Inl e)"
      using "2.IH" [OF _ refl refl] by simp
    with True show ?thesis
      by (auto simp: flattenXML_Suc split: option.splits sum.splits)
  next
    case False
    then show ?thesis by (auto simp: flattenXML_Suc)
  qed
qed (auto split: option.splits sum.splits)

lemma walk_no_error:
  "walkMultiRef tk n root mref \<noteq> Some (Inl e)"
  "walkChildren tk n els mref \<noteq> Some (Inl e)"
  by (induction tk n root mref and tk n els mref rule: walkMultiRef_walkChildren.induct)
     (auto split: option.splits sum.splits)

text \<open>A result obtained with some fuel is the result with any larger fuel.\<close>

lemma flatten_Suc:
  "flattenXML tk n root mref = Some r \<Longrightarrow> flattenXML tk (Suc n) root mref = Some r"
  "flattenChildren tk n els mref acc = Some r \<Longrightarrow> flattenChildren tk (Suc n) els mref acc = Some r"
proof (induction tk n root mref and tk n els mref acc arbitrary: r and r
    rule: flattenXML_flattenChildren.induct)
  case (1 tk root mref)
  then show ?case by simp
next
  case (2 tk fuel root mref)
  show ?case
  proof (cases "Local (Name root) \<noteq> ''multiRef'' \<and> Children tk (substitute root mref) \<noteq> []")
    case True
    with "2.prems" obtain accum where
      fc: "flattenChildren tk fuel (Children tk (substitute root mref)) mref [] = Some (Inr accum)"
      and r: "r = Inr (marshal ((substitute root mref)\<lparr>Data := accum\<rparr>))"
      by (auto simp: flattenXML_Suc flatten_no_error split: option.splits sum.splits)
    from True have "flattenChildren tk (Suc fuel) (Children tk (substitute root mref)) mref [] = Some (Inr accum)"
      using "2.IH" [OF _ refl refl _ fc] by simp
    with True r show ?thesis by (simp add: flattenXML_Suc [of tk "Suc fuel"])
  next
    case False
    with "2.prems" show ?thesis by (auto simp: flattenXML_Suc)
  qed
next
  case (3 tk fuel mref accum)
  then show ?case by simp
next
  case (4 tk fuel el children mref accum)
  from "4.prems" obtain data where
    a: "flattenXML tk fuel el mref = Some (Inr data)"
    and b: "flattenChildren tk fuel children mref (accum @ data) = Some r"
    by (auto simp: flatten_no_error split: option.splits sum.splits)
  from "4.IH"(1) [OF a] "4.IH"(2) [OF a refl b] show ?case by simp
qed

lemma walk_Suc:
  "walkMultiRef tk n root mref = Some r \<Longrightarrow> walkMultiRef tk (Suc n) root mref = Some r"
  "walkChildren tk n els mref = Some r \<Longrightarrow> walkChildren tk (Suc n) els mref = Some r"
proof (induction tk n root mref and tk n els mref arbitrary: r and r
    rule: walkMultiRef_walkChildren.induct)
  case (1 tk root mref)
  then show ?case by simp
next
  case (2 tk fuel root mref)
  from "2.prems" obtain m where
    w: "walkChildren tk fuel (Children tk root) mref = Some (Inr m)"
    by (auto simp: walk_no_error split: option.splits sum.splits)
  from "2.IH" [OF w] have "walkChildren tk (Suc fuel) (Children tk root) mref = Some (Inr m)" .
  with "2.prems" w show ?case by (simp del: walkChildren.simps)
next
  case (3 tk fuel mref)
  then show ?case by simp
next
  case (4 tk fuel el children mref)
  from "4.prems" obtain m where
    a: "walkMultiRef tk fuel el mref = Some (Inr m)"
    and b: "walkChildren tk fuel children m = Some r"
    by (auto simp: walk_no_error split: option.splits sum.splits)
  from "4.IH"(1) [OF a] "4.IH"(2) [OF a refl b] show ?case by simp
qed

lemma flatten_fuel:
  "flattenXML tk n root mref = Some r \<Longrightarrow> flattenXML tk (n + k) root mref = Some r"
  by (induction k) (auto dest: flatten_Suc(1))

lemma flattenChildren_fuel:
  "flattenChildren tk n els mref acc = Some r \<Longrightarrow> flattenChildren tk (n + k) els mref acc = Some r"
  by (induction k) (auto dest: flatten_Suc(2))

lemma walkChildren_fuel:
  "walkChildren tk n els mref = Some r \<Longrightarrow> walkChildren tk (n + k) els mref = Some r"
  by (induction k) (auto dest: walk_Suc(2))

lemma buildMRef_fuel:
  "buildMRef tk n data = Some r \<Longrightarrow> buildMRef tk (n + k) data = Some r"
  by (auto simp: buildMRef_def walkChildren_fuel split: sum.splits)

lemma Flatten_fuel:
  "Flatten tk n data = Some r \<Longrightarrow> Flatten tk (n + k) data = Some r"
  unfolding Flatten_def
  by (auto simp: flattenChildren_fuel walk_no_error buildMRef_def
      split: option.splits sum.splits dest: walkChildren_fuel [where k = k])

subsection \<open>The index pass as a fold over the visit order\<close>

lemma fold_recordId_append: "indexOf (vs @ ws) mref = indexOf ws (indexOf vs mref)"
  by (simp add: indexOf_def)

lemma walk_visit:
  "walkMultiRef tk n root mref = map_option (\<lambda>vs. Inr (indexOf vs mref)) (visitOrder tk n root)"
  "walkChildren tk n els mref = map_option (\<lambda>vs. Inr (indexOf vs mref)) (visitAll tk n els)"
proof (induction tk n root mref and tk n els mref rule: walkMultiRef_walkChildren.induct)
  case (1 tk root mref)
  show ?case by simp
next
  case (2 tk fuel root mref)
  show ?case
  proof (cases "visitAll tk fuel (Children tk root)")
    case None
    with "2.IH" show ?thesis by simp
  next
    case (Some vs)
    with "2.IH" show ?thesis
      by (cases "findId (Attr root)") (simp_all add: indexOf_def recordId_def)
  qed
next
  case (3 tk fuel mref)
  show ?case by (simp add: indexOf_def)
next
  case (4 tk fuel el children mref)
  show ?case
  proof (cases "visitOrder tk fuel el")
    case None
    with "4.IH"(1) show ?thesis by simp
  next
    case (Some v)
    with "4.IH"(1) have w: "walkMultiRef tk fuel el mref = Some (Inr (indexOf v mref))" by simp
    from "4.IH"(2) [OF w refl] Some w show ?thesis
      by (auto simp: indexOf_def split: option.splits)
  qed
qed

lemma indexOf_snoc:
  "indexOf (vs @ [v]) mref i =
     (if findId (Attr v) = Some i then Some v else indexOf vs mref i)"
  by (auto simp: indexOf_def recordId_def split: option.splits)

lemma indexOf_last:
  "indexOf vs Map.empty i = lastWithId i vs"
proof (induction vs rule: rev_induct)
  case Nil
  show ?case by (simp add: indexOf_def lastWithId_def)
next
  case (snoc v vs)
  show ?case
  proof (cases "findId (Attr v) = Some i")
    case True
    then show ?thesis
      by (cases "filter (\<lambda>el. findId (Attr el) = Some i) vs")
         (simp_all add: indexOf_snoc lastWithId_def)
  next
    case False
    with snoc show ?thesis by (simp add: indexOf_snoc lastWithId_def)
  qed
qed

subsection \<open>A mismatched end tag stops the tree build\<close>

lemma elementData_mismatch:
  "mismatch (start # opened) p = Some l \<Longrightarrow>
     elementData p fin start buf = Inl (UnexpectedEndElement l) \<or>
     (\<exists>buf' p'. elementData p fin start buf = Inr (buf', p') \<and> mismatch opened p' = Some l)"
proof (induction p fin start buf arbitrary: opened rule: elementData.induct)
  case (2 n as p fin start buf)
  from "2.prems" have m: "mismatch (n # start # opened) p = Some l" by simp
  from "2.IH"(1) [OF m] show ?case
  proof
    assume "elementData p fin n (buf @ tmplStartTag n as) = Inl (UnexpectedEndElement l)"
    then show ?thesis by simp
  next
    assume "\<exists>buf' p'. elementData p fin n (buf @ tmplStartTag n as) = Inr (buf', p') \<and>
              mismatch (start # opened) p' = Some l"
    then obtain b1 p1 where a: "elementData p fin n (buf @ tmplStartTag n as) = Inr (b1, p1)"
      and b: "mismatch (start # opened) p1 = Some l" by blast
    from "2.IH"(2) [OF a refl b] a show ?thesis by simp
  qed
qed auto

lemma elementsLoop_mismatch:
  "mismatch [] p = Some l \<Longrightarrow> elementsLoop p fin elem = Inl (UnexpectedEndElement l)"
proof (induction p fin elem rule: elementsLoop.induct)
  case (2 n as p fin elem)
  from "2.prems" have m: "mismatch [n] p = Some l" by simp
  from elementData_mismatch [OF m, of fin "[]"] show ?case
  proof
    assume "elementData p fin n [] = Inl (UnexpectedEndElement l)"
    then show ?thesis by simp
  next
    assume "\<exists>buf' p'. elementData p fin n [] = Inr (buf', p') \<and> mismatch [] p' = Some l"
    then obtain b1 p1 where a: "elementData p fin n [] = Inr (b1, p1)"
      and b: "mismatch [] p1 = Some l" by blast
    from "2.IH" [OF a refl b] a show ?thesis by simp
  qed
qed auto

lemma elements_mismatch:
  "tk data = (p, fin) \<Longrightarrow> mismatch [] p = Some l \<Longrightarrow>
     elements tk data = Inl (UnexpectedEndElement l)"
  by (simp add: elements_def elementsLoop_mismatch)

subsection \<open>The href step and the shape of the output\<close>

lemma substitute_idem:
  "substitute (substitute root mref) mref = substitute root mref"
  by (auto simp: substitute_def split: option.splits)

lemma substitute_Name_Attr:
  "Name (substitute root mref) = Name root" "Attr (substitute root mref) = Attr root"
  by (auto simp: substitute_def split: option.splits)

lemma flattenXML_substitute:
  "flattenXML tk fuel (substitute root mref) mref = flattenXML tk fuel root mref"
  by (cases fuel)
     (simp_all add: flattenXML_Suc substitute_idem substitute_Name_Attr
        split: option.splits sum.splits)

lemma flattenXML_shape:
  assumes "flattenXML tk fuel root mref = Some (Inr out)" and "Local (Name root) \<noteq> ''multiRef''"
  shows "\<exists>content. out = marshal \<lparr>Name = Name root, Attr = Attr root, Data = content\<rparr>"
proof (cases fuel)
  case 0
  with assms show ?thesis by simp
next
  case (Suc n)
  have eq: "\<And>d. (substitute root mref)\<lparr>Data := d\<rparr> = \<lparr>Name = Name root, Attr = Attr root, Data = d\<rparr>"
    by (simp add: substitute_def split: option.splits)
  from eq [of "Data (substitute root mref)"]
  have eq2: "substitute root mref = \<lparr>Name = Name root, Attr = Attr root, Data = Data (substitute root mref)\<rparr>"
    by simp
  from assms Suc show ?thesis
    apply (simp add: flattenXML_Suc eq split: if_splits option.splits sum.splits)
     apply (metis eq2)
    apply blast
    done
qed

lemma substitute_missing:
  "findHref (Attr root) = Some h \<Longrightarrow> mref h = None \<Longrightarrow> substitute root mref = root"
  by (simp add: substitute_def)

lemma findHref_Some:
  "findAttr list [] ''href'' = Some a \<Longrightarrow> Value a = CHR ''#'' # i \<Longrightarrow> i \<noteq> [] \<Longrightarrow>
     findHref list = Some i"
  by (cases i) (simp_all add: findHref_def)

lemma findHref_None:
  "findAttr list [] ''href'' = None \<or>
   (findAttr list [] ''href'' = Some a \<and> (length (Value a) \<le> 1 \<or> hd (Value a) \<noteq> CHR ''#'')) \<Longrightarrow>
     findHref list = None"
  by (auto simp: findHref_def)

subsection \<open>Errors of \<open>Flatten\<close>; a child that does not return\<close>

lemma Flatten_error_iff:
  "Flatten tk fuel data = Some (Inl e) \<longleftrightarrow> elements tk data = Inl e"
  by (auto simp: Flatten_def buildMRef_def flatten_no_error walk_no_error
      split: option.splits sum.splits)

lemma flattenChildren_None:
  "c \<in> set els \<Longrightarrow> flattenXML tk fuel c mref = None \<Longrightarrow> flattenChildren tk fuel els mref acc = None"
proof (induction els arbitrary: acc)
  case Nil
  then show ?case by simp
next
  case (Cons x els)
  then show ?case
    by (cases "flattenXML tk fuel x mref")
       (auto simp: flatten_no_error split: sum.splits)
qed

subsection \<open>Canonical header keys\<close>

lemma canonical_keys:
  "CanonicalMIMEHeaderKey ''SOAPAction'' = ''Soapaction''"
  "CanonicalMIMEHeaderKey ''Content-Type'' = ''Content-Type''"
  "CanonicalMIMEHeaderKey ''charset'' = ''Charset''"
  by code_simp+

subsection \<open>Documents given as trees\<close>

lemma elementData_node:
  "elementData (toks c @ rest) fin start buf = elementData rest fin start (buf @ ser c)"
proof (induction c arbitrary: rest start buf)
  case (Elem n as cs)
  have forest: "elementData (concat (map toks ds) @ r) fin s b =
      elementData r fin s (b @ concat (map ser ds))" if "set ds \<subseteq> set cs" for ds r s b
    using that
  proof (induction ds arbitrary: b)
    case Nil
    show ?case by simp
  next
    case (Cons d ds)
    then have "d \<in> set cs" by simp
    from Elem.IH [OF this] Cons show ?case by simp
  qed
  show ?case by (simp add: forest)
next
  case (Text s)
  show ?case by simp
qed

lemma elementData_forest:
  "elementData (concat (map toks ds) @ r) fin s b = elementData r fin s (b @ concat (map ser ds))"
  by (induction ds arbitrary: b) (simp_all add: elementData_node)

lemma elementsLoop_forest:
  "elementsLoop (concat (map toks ts) @ rest) fin elem = elementsLoop rest fin (elem @ topElements ts)"
proof (induction ts arbitrary: elem rule: topElements.induct)
  case 1
  show ?case by simp
next
  case (2 n as cs ts)
  have "elementData (concat (map toks cs) @ EndElement n # concat (map toks ts) @ rest) fin n [] =
      Inr (concat (map ser cs), concat (map toks ts) @ rest)"
    by (simp add: elementData_forest)
  with 2 show ?case by simp
next
  case (3 s ts)
  then show ?case by simp
qed

lemma elements_forest:
  "tk data = (concat (map toks ts), EOF) \<Longrightarrow> elements tk data = Inr (topElements ts)"
  using elementsLoop_forest [of ts "[]" EOF "[]"] by (simp add: elements_def)

lemma Children_forest:
  "readsBack tk (Elem n as cs) \<Longrightarrow>
     Children tk \<lparr>Name = n, Attr = as, Data = concat (map ser cs)\<rparr> = topElements cs"
  by (simp add: Children_def elements_forest)

lemma fold_max_ge: "(a::nat) \<le> fold max xs a"
proof (induction xs arbitrary: a)
  case Nil
  show ?case by simp
next
  case (Cons x xs)
  have "a \<le> max x a" by simp
  also have "\<dots> \<le> fold max xs (max x a)" by (rule Cons.IH)
  finally show ?case by simp
qed

lemma fold_max_mem: "x \<in> set xs \<Longrightarrow> (x::nat) \<le> fold max xs a"
proof (induction xs arbitrary: a)
  case Nil
  then show ?case by simp
next
  case (Cons y xs)
  show ?case
  proof (cases "x = y")
    case True
    have "x \<le> max y a" using True by simp
    also have "\<dots> \<le> fold max xs (max y a)" by (rule fold_max_ge)
    finally show ?thesis by simp
  next
    case False
    with Cons show ?thesis by simp
  qed
qed

lemma height_child: "d \<in> set cs \<Longrightarrow> height (Elem n as cs) \<le> Suc f \<Longrightarrow> height d \<le> f"
  using fold_max_mem [of "height d" "map height cs" 0] by auto






subsection \<open>The index pass on a document tree\<close>

lemma visit_tree_order:
  "readsBack tk (Elem n as cs) \<Longrightarrow> height (Elem n as cs) \<le> fuel \<Longrightarrow>
     visitOrder tk fuel \<lparr>Name = n, Attr = as, Data = concat (map ser cs)\<rparr> =
       Some (documentOrder (Elem n as cs))"
proof (induction fuel arbitrary: n as cs)
  case 0
  then show ?case by simp
next
  case (Suc f)
  have forest: "visitAll tk f (topElements ds) = Some (concat (map documentOrder ds))"
    if "set ds \<subseteq> set cs" for ds
    using that
  proof (induction ds rule: topElements.induct)
    case 1
    show ?case by simp
  next
    case (2 m bs es ts)
    then have mem: "Elem m bs es \<in> set cs" by simp
    from Suc.prems(1) have "list_all (readsBack tk) cs" by simp
    with mem have rb: "readsBack tk (Elem m bs es)" by (simp add: list_all_iff del: readsBack.simps)
    from height_child [OF mem Suc.prems(2)] have "height (Elem m bs es) \<le> f" .
    from Suc.IH [OF rb this] 2 show ?case by simp
  next
    case (3 s ts)
    then show ?case by simp
  qed
  from forest [of cs] Children_forest [OF Suc.prems(1)] show ?case by simp
qed

lemma visit_forest_order:
  "list_all (readsBack tk) ts \<Longrightarrow> list_all (\<lambda>t. height t \<le> fuel) ts \<Longrightarrow>
     visitAll tk fuel (topElements ts) = Some (concat (map documentOrder ts))"
proof (induction ts rule: topElements.induct)
  case 1
  show ?case by simp
next
  case (2 n as cs ts)
  from 2 visit_tree_order [of tk n as cs fuel] show ?case by (simp del: documentOrder.simps)
next
  case (3 s ts)
  then show ?case by simp
qed

lemma buildMRef_forest:
  assumes "tk data = (concat (map toks ts), EOF)"
    and "list_all (readsBack tk) ts"
    and "list_all (\<lambda>t. height t \<le> fuel) ts"
  shows "buildMRef tk fuel data = Some (Inr (indexOf (concat (map documentOrder ts)) Map.empty))"
proof -
  from assms(1) have el: "elements tk data = Inr (topElements ts)" by (rule elements_forest)
  from visit_forest_order [OF assms(2,3)] show ?thesis
    by (simp add: buildMRef_def el walk_visit)
qed

lemma lastWithId_recorded:
  "e \<in> set vs \<Longrightarrow> findId (Attr e) = Some i \<Longrightarrow> lastWithId i vs \<noteq> None"
  by (auto simp: lastWithId_def filter_empty_conv split: list.splits)

subsection \<open>The substitution pass on a document tree with references\<close>





lemma topElements_append: "topElements (xs @ ys) = topElements xs @ topElements ys"
  by (induction xs rule: topElements.induct) simp_all

lemma topElements_concat: "topElements (concat xss) = concat (map topElements xss)"
  by (induction xss) (simp_all add: topElements_append)








section \<open>The claims\<close>

lemma exampleDoc_Flatten: "Flatten rawTokens 3 exampleDoc = Some (Inr exampleFlat)"
  by code_simp

lemma exampleFlat_elements:
  "map_option (map (\<lambda>el. (Local (Name el), Data el))) (documentElements rawTokens 3 exampleFlat) =
     Some [(''sessionId'', ''123456''),
           (''Header'', ''<sessionId href=\"#id0\">123456</sessionId>''),
           (''Body'', []),
           (''Envelope'', ''<Header><sessionId href=\"#id0\">123456</sessionId></Header><Body></Body>'')]"
  by code_simp

text \<open>
  \<^bold>\<open>C1\<close> (single substitution). On the document
  \<^verbatim>\<open><Envelope><Header><sessionId href="#id0"/></Header><Body><multiRef id="id0">123456</multiRef></Body></Envelope>\<close>
  \<open>Flatten\<close> returns, with fuel 3 and with any larger fuel, a document and no error. The
  document returned has four elements: \<open>sessionId\<close> with content \<open>123456\<close>, \<open>Header\<close>,
  \<open>Body\<close> (empty) and \<open>Envelope\<close>; no element \<open>multiRef\<close> is among them.
\<close>

theorem C1_single_substitution:
  "Flatten rawTokens (3 + k) exampleDoc = Some (Inr exampleFlat) \<and>
   exampleFlat = ''<Envelope><Header><sessionId href=\"#id0\">123456</sessionId></Header><Body /></Envelope>'' \<and>
   map_option (map (\<lambda>el. (Local (Name el), Data el))) (documentElements rawTokens 3 exampleFlat) =
     Some [(''sessionId'', ''123456''),
           (''Header'', ''<sessionId href=\"#id0\">123456</sessionId>''),
           (''Body'', []),
           (''Envelope'', ''<Header><sessionId href=\"#id0\">123456</sessionId></Header><Body></Body>'')]"
  using Flatten_fuel [OF exampleDoc_Flatten, of k] exampleFlat_elements
  by (simp add: exampleFlat_def)

text \<open>
  \<^bold>\<open>C4\<close> (malformed input rejected). When the token stream of the input holds an end tag
  whose name differs from the name of the start tag open at that point, the tree build
  \<open>elements\<close> fails with the error \<^verbatim>\<open>Unexpected end element\<close> naming that end tag; the
  index pass, \<open>Flatten\<close> and \<open>Unmarshal\<close> return that same error, whatever the fuel, and
  an error result carries no output.
\<close>

theorem C4_mismatched_end_tag_rejected:
  assumes "tk data = (p, fin)" and "mismatch [] p = Some l"
  shows "elements tk data = Inl (UnexpectedEndElement l) \<and>
         buildMRef tk fuel data = Some (Inl (UnexpectedEndElement l)) \<and>
         Flatten tk fuel data = Some (Inl (UnexpectedEndElement l)) \<and>
         Unmarshal tk decode fuel data = Some (Inl (UnexpectedEndElement l))"
  using elements_mismatch [of tk data p fin l] assms
  by (simp add: buildMRef_def Flatten_def Unmarshal_def)

lemma mismatchDoc_tokens:
  "rawTokens mismatchDoc =
     ([StartElement \<lparr>Space = [], Local = ''a''\<rparr> [],
       StartElement \<lparr>Space = [], Local = ''b''\<rparr> [],
       EndElement \<lparr>Space = [], Local = ''a''\<rparr>], EOF)"
  by code_simp

theorem C4_mismatched_end_tag_witness:
  "rawTokens mismatchDoc =
     ([StartElement \<lparr>Space = [], Local = ''a''\<rparr> [],
       StartElement \<lparr>Space = [], Local = ''b''\<rparr> [],
       EndElement \<lparr>Space = [], Local = ''a''\<rparr>], EOF) \<and>
   mismatch [] (fst (rawTokens mismatchDoc)) = Some ''a'' \<and>
   elements rawTokens mismatchDoc = Inl (UnexpectedEndElement ''a'') \<and>
   Flatten rawTokens 0 mismatchDoc = Some (Inl (UnexpectedEndElement ''a'')) \<and>
   Unmarshal rawTokens (\<lambda>out. Inr out) 0 mismatchDoc = Some (Inl (UnexpectedEndElement ''a''))"
proof -
  have m: "mismatch [] [StartElement \<lparr>Space = [], Local = ''a''\<rparr> [],
       StartElement \<lparr>Space = [], Local = ''b''\<rparr> [],
       EndElement \<lparr>Space = [], Local = ''a''\<rparr>] = Some ''a''"
    by simp
  from C4_mismatched_end_tag_rejected [of rawTokens mismatchDoc _ EOF "''a''" 0 "\<lambda>out. Inr out",
      OF mismatchDoc_tokens m]
  show ?thesis using m by (simp add: mismatchDoc_tokens)
qed





text \<open>
  \<^bold>\<open>C7\<close> as stated fails: the token stream of \<^verbatim>\<open><a><b id="q" x='"'/></a>\<close> is that of an
  element \<open>a\<close> with a child \<open>b\<close> carrying the id \<open>q\<close>; the index pass reaches \<open>a\<close> only, and
  the index it returns has no entry for \<open>q\<close>.
\<close>

theorem C7_counterexample:
  "rawTokens lostIdDoc = (concat (map toks lostIdTree), EOF) \<and>
   map (Local \<circ> Name) (concat (map documentOrder lostIdTree)) = [''b'', ''a''] \<and>
   documentElements rawTokens 2 lostIdDoc = Some [elt ''a'' [] ''<b id=\"q\" x=\"\"\"></b>''] \<and>
   map_option (map_sum id (\<lambda>mref. mref ''q'')) (buildMRef rawTokens 2 lostIdDoc) = Some (Inr None)"
  by code_simp

text \<open>
  \<^bold>\<open>C7\<close>, amended (index pass). Let the token stream of the input be that of a forest of
  trees, and let the decoder read the serialised content of every element back as the
  tokens of its children. Then \<open>buildMRef\<close>, with fuel at least the height of the trees,
  returns the index obtained by recording, one after the other from the empty index,
  the elements of the forest in document order, depth first, the children of an element
  before the element itself, each element that carries an \<open>id\<close> attribute being stored
  under that id. In that index an id is bound to the last element of the order that
  carries it, and every id carried by an element of the forest is bound.
\<close>

theorem C7_index_pass_document_order:
  assumes "tk data = (concat (map toks ts), EOF)"
    and "list_all (readsBack tk) ts"
    and "list_all (\<lambda>t. height t \<le> fuel) ts"
  shows "buildMRef tk fuel data = Some (Inr (indexOf (concat (map documentOrder ts)) Map.empty)) \<and>
         indexOf (concat (map documentOrder ts)) Map.empty i =
           lastWithId i (concat (map documentOrder ts)) \<and>
         (e \<in> set (concat (map documentOrder ts)) \<and> findId (Attr e) = Some i \<longrightarrow>
            indexOf (concat (map documentOrder ts)) Map.empty i \<noteq> None)"
proof (intro conjI impI)
  show "buildMRef tk fuel data = Some (Inr (indexOf (concat (map documentOrder ts)) Map.empty))"
    using assms by (rule buildMRef_forest)
  show "indexOf (concat (map documentOrder ts)) Map.empty i =
      lastWithId i (concat (map documentOrder ts))"
    by (rule indexOf_last)
  assume "e \<in> set (concat (map documentOrder ts)) \<and> findId (Attr e) = Some i"
  then have "lastWithId i (concat (map documentOrder ts)) \<noteq> None"
    using lastWithId_recorded [of e "concat (map documentOrder ts)" i] by blast
  then show "indexOf (concat (map documentOrder ts)) Map.empty i \<noteq> None"
    by (simp add: indexOf_last)
qed

lemma sameId_facts:
  "rawTokens sameIdDoc = (concat (map toks sameIdTree), EOF)"
  "list_all (readsBack rawTokens) sameIdTree"
  "list_all (\<lambda>t. height t \<le> 3) sameIdTree"
  "concat (map documentOrder sameIdTree) =
     [elt ''a'' [(''id'', ''k'')] ''1'', elt ''c'' [(''id'', ''j'')] [],
      elt ''b'' [(''id'', ''k'')] ''<c id=\"j\"></c>'',
      elt ''r'' [] ''<a id=\"k\">1</a><b id=\"k\"><c id=\"j\"></c></b>'']"
  "lastWithId ''k'' (concat (map documentOrder sameIdTree)) = Some (elt ''b'' [(''id'', ''k'')] ''<c id=\"j\"></c>'')"
  "findId (Attr (elt ''c'' [(''id'', ''j'')] [])) = Some ''j''"
  by code_simp+

theorem C7_witness:
  "rawTokens sameIdDoc = (concat (map toks sameIdTree), EOF) \<and>
   concat (map documentOrder sameIdTree) =
     [elt ''a'' [(''id'', ''k'')] ''1'', elt ''c'' [(''id'', ''j'')] [],
      elt ''b'' [(''id'', ''k'')] ''<c id=\"j\"></c>'',
      elt ''r'' [] ''<a id=\"k\">1</a><b id=\"k\"><c id=\"j\"></c></b>''] \<and>
   buildMRef rawTokens 3 sameIdDoc = Some (Inr (indexOf (concat (map documentOrder sameIdTree)) Map.empty)) \<and>
   indexOf (concat (map documentOrder sameIdTree)) Map.empty ''k'' =
     Some (elt ''b'' [(''id'', ''k'')] ''<c id=\"j\"></c>'') \<and>
   indexOf (concat (map documentOrder sameIdTree)) Map.empty ''j'' \<noteq> None"
proof -
  have mem: "elt ''c'' [(''id'', ''j'')] [] \<in> set (concat (map documentOrder sameIdTree))"
    by (simp only: sameId_facts(4)) simp
  note t = C7_index_pass_document_order [of rawTokens sameIdDoc sameIdTree 3, OF sameId_facts(1-3)]
  from t [of "''k''"] have 1: "buildMRef rawTokens 3 sameIdDoc =
      Some (Inr (indexOf (concat (map documentOrder sameIdTree)) Map.empty))"
    and 2: "indexOf (concat (map documentOrder sameIdTree)) Map.empty ''k'' =
      lastWithId ''k'' (concat (map documentOrder sameIdTree))" by blast+
  from t [of "''j''" "elt ''c'' [(''id'', ''j'')] []"] mem sameId_facts(6)
  have 3: "indexOf (concat (map documentOrder sameIdTree)) Map.empty ''j'' \<noteq> None" by blast
  from 1 2 3 sameId_facts(1,4,5) show ?thesis by (simp only:) simp
qed





text \<open>
  \<^bold>\<open>C3\<close> as stated fails: on \<^verbatim>\<open><a href="#X">text</a>\<close> no element carries the id \<open>X\<close>
  (the index is empty at \<open>X\<close>), \<open>Flatten\<close> returns without error, and the element is
  emitted with the content \<open>text\<close>, not with empty content.
\<close>

theorem C3_counterexample:
  "map_option (map_sum id (\<lambda>mref. mref ''X'')) (buildMRef rawTokens 1 missingTextDoc) = Some (Inr None) \<and>
   Flatten rawTokens 1 missingTextDoc = Some (Inr ''<a href=\"#X\">text</a>'') \<and>
   map_option (map (\<lambda>e. (Local (Name e), Data e)))
     (documentElements rawTokens 1 ''<a href=\"#X\">text</a>'') = Some [(''a'', ''text'')]"
  by code_simp

text \<open>
  \<^bold>\<open>C3\<close>, amended (missing id). For an element not named \<open>multiRef\<close> whose href names an
  id that is not in the index, the href step changes nothing and \<open>flattenXML\<close> returns
  no error. When the element has no child elements it is emitted with its own content:
  as the self-closing tag when that content is empty, and as start tag, content, end
  tag otherwise. When it has child elements it is emitted with its own name and
  attributes around the concatenation of its flattened child elements (or fails to
  return when flattening them does). \<open>Flatten\<close> returns no error on an input whose tree
  build succeeds.
\<close>

theorem C3_missing_id_no_substitution:
  assumes "Local (Name root) \<noteq> ''multiRef''" and "findHref (Attr root) = Some h" and "mref h = None"
  shows "substitute root mref = root \<and>
         flattenXML tk fuel root mref \<noteq> Some (Inl e) \<and>
         (Children tk root = [] \<longrightarrow>
            flattenXML tk (Suc fuel) root mref = Some (Inr (marshal root))) \<and>
         (Children tk root = [] \<and> Data root = [] \<longrightarrow>
            flattenXML tk (Suc fuel) root mref = Some (Inr (tmplEmptyTag (Name root) (Attr root)))) \<and>
         (Children tk root = [] \<and> Data root \<noteq> [] \<longrightarrow>
            flattenXML tk (Suc fuel) root mref =
              Some (Inr (tmplStartTag (Name root) (Attr root) @ Data root @ tmplEndTag (Name root)))) \<and>
         (Children tk root \<noteq> [] \<longrightarrow>
            flattenXML tk (Suc fuel) root mref =
              (case flattenChildren tk fuel (Children tk root) mref [] of
                 None \<Rightarrow> None
               | Some (Inl err) \<Rightarrow> Some (Inl err)
               | Some (Inr accum) \<Rightarrow> Some (Inr (marshal (root\<lparr>Data := accum\<rparr>))))) \<and>
         (elements tk data = Inr elem \<longrightarrow> Flatten tk fuel data \<noteq> Some (Inl e))"
  using assms
  by (auto simp: flattenXML_Suc substitute_missing flatten_no_error Flatten_error_iff
      marshal_def tmplElement_def split: option.splits sum.splits)

lemma missingDoc_facts:
  "elements rawTokens missingDoc = Inr [elt ''a'' [(''href'', ''#missing'')] []]"
  "Children rawTokens (elt ''a'' [(''href'', ''#missing'')] []) = []"
  "findHref (Attr (elt ''a'' [(''href'', ''#missing'')] [])) = Some ''missing''"
  "Flatten rawTokens 1 missingDoc = Some (Inr ''<a href=\"#missing\" />'')"
  "tmplEmptyTag (Name (elt ''a'' [(''href'', ''#missing'')] [])) (Attr (elt ''a'' [(''href'', ''#missing'')] [])) =
     ''<a href=\"#missing\" />''"
  by code_simp+

lemma missingText_facts:
  "elements rawTokens missingTextDoc = Inr [elt ''a'' [(''href'', ''#X'')] ''text'']"
  "Children rawTokens (elt ''a'' [(''href'', ''#X'')] ''text'') = []"
  "findHref (Attr (elt ''a'' [(''href'', ''#X'')] ''text'')) = Some ''X''"
  "marshal (elt ''a'' [(''href'', ''#X'')] ''text'') = ''<a href=\"#X\">text</a>''"
  by code_simp+

lemma missingMixed_facts:
  "elements rawTokens missingMixedDoc = Inr [elt ''a'' [(''href'', ''#X'')] ''t<b></b>u'']"
  "Children rawTokens (elt ''a'' [(''href'', ''#X'')] ''t<b></b>u'') = [elt ''b'' [] []]"
  "findHref (Attr (elt ''a'' [(''href'', ''#X'')] ''t<b></b>u'')) = Some ''X''"
  "flattenChildren rawTokens 1 [elt ''b'' [] []] Map.empty [] = Some (Inr ''<b />'')"
  "marshal ((elt ''a'' [(''href'', ''#X'')] ''t<b></b>u'')\<lparr>Data := ''<b />''\<rparr>) = ''<a href=\"#X\"><b /></a>''"
  "Flatten rawTokens 2 missingMixedDoc = Some (Inr ''<a href=\"#X\"><b /></a>'')"
  by code_simp+

theorem C3_witness:
  "flattenXML rawTokens 1 (elt ''a'' [(''href'', ''#missing'')] []) Map.empty =
     Some (Inr ''<a href=\"#missing\" />'') \<and>
   Flatten rawTokens 1 missingDoc = Some (Inr ''<a href=\"#missing\" />'') \<and>
   flattenXML rawTokens 1 (elt ''a'' [(''href'', ''#X'')] ''text'') Map.empty =
     Some (Inr ''<a href=\"#X\">text</a>'') \<and>
   flattenXML rawTokens 2 (elt ''a'' [(''href'', ''#X'')] ''t<b></b>u'') Map.empty =
     Some (Inr ''<a href=\"#X\"><b /></a>'') \<and>
   Flatten rawTokens 2 missingMixedDoc = Some (Inr ''<a href=\"#X\"><b /></a>'')"
proof -
  have a: "Local (Name (elt ''a'' [(''href'', ''#missing'')] [])) \<noteq> ''multiRef''"
    and d: "Data (elt ''a'' [(''href'', ''#missing'')] []) = []"
    and b: "Local (Name (elt ''a'' [(''href'', ''#X'')] ''text'')) \<noteq> ''multiRef''"
    and c: "Local (Name (elt ''a'' [(''href'', ''#X'')] ''t<b></b>u'')) \<noteq> ''multiRef''"
    by (simp_all add: elt_def)
  have e: "Map.empty ''missing'' = (None :: element option)"
    and e': "Map.empty ''X'' = (None :: element option)" by simp_all
  from C3_missing_id_no_substitution [OF a missingDoc_facts(3) e, of rawTokens 0 EOF missingDoc]
    missingDoc_facts(2) d
  have "flattenXML rawTokens (Suc 0) (elt ''a'' [(''href'', ''#missing'')] []) Map.empty =
      Some (Inr (tmplEmptyTag (Name (elt ''a'' [(''href'', ''#missing'')] []))
         (Attr (elt ''a'' [(''href'', ''#missing'')] []))))"
    by blast
  then have 1: "flattenXML rawTokens 1 (elt ''a'' [(''href'', ''#missing'')] []) Map.empty =
      Some (Inr ''<a href=\"#missing\" />'')"
    by (simp add: missingDoc_facts(5))
  from C3_missing_id_no_substitution [OF b missingText_facts(3) e', of rawTokens 0 EOF missingDoc]
    missingText_facts(2)
  have "flattenXML rawTokens (Suc 0) (elt ''a'' [(''href'', ''#X'')] ''text'') Map.empty =
      Some (Inr (marshal (elt ''a'' [(''href'', ''#X'')] ''text'')))"
    by blast
  then have 2: "flattenXML rawTokens 1 (elt ''a'' [(''href'', ''#X'')] ''text'') Map.empty =
      Some (Inr ''<a href=\"#X\">text</a>'')"
    by (simp add: missingText_facts(4))
  have ne: "Children rawTokens (elt ''a'' [(''href'', ''#X'')] ''t<b></b>u'') \<noteq> []"
    by (simp add: missingMixed_facts(2))
  from C3_missing_id_no_substitution [OF c missingMixed_facts(3) e', of rawTokens 1 EOF missingDoc] ne
  have "flattenXML rawTokens (Suc 1) (elt ''a'' [(''href'', ''#X'')] ''t<b></b>u'') Map.empty =
      (case flattenChildren rawTokens 1 (Children rawTokens (elt ''a'' [(''href'', ''#X'')] ''t<b></b>u'')) Map.empty [] of
         None \<Rightarrow> None
       | Some (Inl err) \<Rightarrow> Some (Inl err)
       | Some (Inr accum) \<Rightarrow> Some (Inr (marshal ((elt ''a'' [(''href'', ''#X'')] ''t<b></b>u'')\<lparr>Data := accum\<rparr>))))"
    by blast
  then have 3: "flattenXML rawTokens 2 (elt ''a'' [(''href'', ''#X'')] ''t<b></b>u'') Map.empty =
      Some (Inr ''<a href=\"#X\"><b /></a>'')"
    by (simp only: missingMixed_facts(2,4,5) option.case sum.case Suc_1)
  from 1 2 3 missingDoc_facts(4) missingMixed_facts(6) show ?thesis by blast
qed

text \<open>
  \<^bold>\<open>C5\<close> as stated fails: in \<^verbatim>\<open><multiRef id="x"><b href="#x"/></multiRef>\<close> the placeholder
  \<open>b\<close> refers to its own parent, and \<open>Flatten\<close> returns the empty document with fuel 2;
  in \<^verbatim>\<open><a id="A" href="#B"/><b id="B" href="#A"/>\<close> the two elements refer to each other, and
  \<open>Flatten\<close> returns with fuel 1.
\<close>

theorem C5_counterexample:
  "documentElements rawTokens 2 hiddenCycleDoc =
     Some [elt ''b'' [(''href'', ''#x'')] [], elt ''multiRef'' [(''id'', ''x'')] ''<b href=\"#x\"></b>''] \<and>
   Flatten rawTokens 2 hiddenCycleDoc = Some (Inr []) \<and>
   Flatten rawTokens 1 mutualDoc = Some (Inr ''<a id=\"A\" href=\"#B\" /><b id=\"B\" href=\"#A\" />'')"
  by code_simp

text \<open>
  \<^bold>\<open>C5\<close>, amended (unbounded recursion). Let \<open>S\<close> be a set of elements, none named
  \<open>multiRef\<close>, such that every element of \<open>S\<close> has, after its href step, a child element
  that is in \<open>S\<close> again (a reference chain that leads back into content being expanded).
  Then \<open>flattenXML\<close> returns for no fuel on any element of \<open>S\<close>: nothing in the code
  limits the depth or remembers visited elements.
\<close>

theorem C5_unbounded_recursion:
  assumes closed: "\<forall>p \<in> S. Local (Name p) \<noteq> ''multiRef'' \<and>
                     (\<exists>q \<in> S. q \<in> set (Children tk (substitute p mref)))"
    and root: "root \<in> S"
  shows "flattenXML tk fuel root mref = None"
  using root
proof (induction fuel arbitrary: root)
  case 0
  show ?case by simp
next
  case (Suc fuel)
  from closed Suc.prems obtain q where nm: "Local (Name root) \<noteq> ''multiRef''"
    and q: "q \<in> S" "q \<in> set (Children tk (substitute root mref))" by blast
  from Suc.IH [OF q(1)] have "flattenXML tk fuel q mref = None" .
  from flattenChildren_None [OF q(2) this]
  have "flattenChildren tk fuel (Children tk (substitute root mref)) mref [] = None" .
  moreover from q(2) have "Children tk (substitute root mref) \<noteq> []" by auto
  ultimately show ?case using nm by (simp add: flattenXML_Suc)
qed

text \<open>On \<^verbatim>\<open><a id="x"><b href="#x"/></a>\<close> the set is \<open>{a, b}\<close>, and \<open>Flatten\<close> returns for no fuel.\<close>

lemma cycleDoc_facts:
  "elements rawTokens cycleDoc = Inr [cycleA]"
  "visitAll rawTokens 2 [cycleA] = Some [cycleB, cycleA]"
  "Flatten rawTokens 0 cycleDoc = None"
  "Flatten rawTokens (Suc 0) cycleDoc = None"
  "Local (Name cycleA) \<noteq> ''multiRef''"
  "Local (Name cycleB) \<noteq> ''multiRef''"
  "Children rawTokens (substitute cycleA (indexOf [cycleB, cycleA] Map.empty)) = [cycleB]"
  "Children rawTokens (substitute cycleB (indexOf [cycleB, cycleA] Map.empty)) = [cycleB]"
  by code_simp+

theorem C5_witness:
  "\<forall>fuel. flattenXML rawTokens fuel cycleA (indexOf [cycleB, cycleA] Map.empty) = None \<and>
          Flatten rawTokens fuel cycleDoc = None"
proof
  fix fuel
  let ?m = "indexOf [cycleB, cycleA] Map.empty"
  have closed: "\<forall>p \<in> {cycleA, cycleB}. Local (Name p) \<noteq> ''multiRef'' \<and>
      (\<exists>q \<in> {cycleA, cycleB}. q \<in> set (Children rawTokens (substitute p ?m)))"
    using cycleDoc_facts(5-8) by simp
  have a: "flattenXML rawTokens n cycleA ?m = None" for n
    using C5_unbounded_recursion [OF closed, of cycleA n] by simp
  have "Flatten rawTokens fuel cycleDoc = None"
  proof (cases "fuel < 2")
    case True
    then have "fuel = 0 \<or> fuel = Suc 0" by auto
    with cycleDoc_facts(3,4) show ?thesis by auto
  next
    case False
    then obtain k where k: "fuel = 2 + k" using le_Suc_ex [of 2 fuel] by auto
    have "walkChildren rawTokens 2 [cycleA] Map.empty = Some (Inr ?m)"
      by (simp only: walk_visit cycleDoc_facts(2) option.map)
    from walkChildren_fuel [OF this, of k] k
    have "buildMRef rawTokens fuel cycleDoc = Some (Inr ?m)"
      by (simp add: buildMRef_def cycleDoc_facts(1))
    moreover have "flattenChildren rawTokens fuel [cycleA] ?m [] = None"
      using a [of fuel] by simp
    ultimately show ?thesis by (simp add: Flatten_def cycleDoc_facts(1))
  qed
  with a show "flattenXML rawTokens fuel cycleA ?m = None \<and> Flatten rawTokens fuel cycleDoc = None"
    by simp
qed

text \<open>
  \<^bold>\<open>C8\<close> as stated fails: in \<^verbatim>\<open><a href="#"/><b id="">x</b>\<close> the href value begins with
  \<^verbatim>\<open>#\<close>, the id after it (the empty string) is in the index, bound to \<open>b\<close> with content
  \<open>x\<close>, and the content of \<open>a\<close> is not replaced.
\<close>

theorem C8_counterexample:
  "map_option (map_sum id (\<lambda>mref. map_option Data (mref []))) (buildMRef rawTokens 1 emptyIdDoc) =
     Some (Inr (Some ''x'')) \<and>
   Flatten rawTokens 1 emptyIdDoc = Some (Inr ''<a href=\"#\" /><b id=\"\">x</b>'')"
  by code_simp

text \<open>
  \<^bold>\<open>C8\<close>, amended (href substitution). For an element not named \<open>multiRef\<close>: when its first
  attribute with local name \<open>href\<close> has a value \<^verbatim>\<open>#\<close> followed by a non-empty id that the
  index binds to an element, its content is replaced by that element's raw content
  before anything else is done with it (flattening it equals flattening the element
  with that content, and gives the element's tag around that content when the content
  has no child elements); the output always carries the element's own name and
  attributes; when there is no such attribute, or its value does not begin with
  \<^verbatim>\<open>#\<close>, or is at most one byte long, nothing is substituted.
\<close>

theorem C8_href_substitution:
  assumes "Local (Name root) \<noteq> ''multiRef''"
  shows "(findAttr (Attr root) [] ''href'' = Some a \<and> Value a = CHR ''#'' # i \<and> i \<noteq> [] \<and>
            mref i = Some el \<longrightarrow>
            substitute root mref = root\<lparr>Data := Data el\<rparr> \<and>
            flattenXML tk fuel root mref = flattenXML tk fuel (root\<lparr>Data := Data el\<rparr>) mref \<and>
            (Children tk (root\<lparr>Data := Data el\<rparr>) = [] \<longrightarrow>
               flattenXML tk (Suc fuel) root mref = Some (Inr (marshal (root\<lparr>Data := Data el\<rparr>))))) \<and>
         (flattenXML tk fuel root mref = Some (Inr out) \<longrightarrow>
            (\<exists>content. out = marshal \<lparr>Name = Name root, Attr = Attr root, Data = content\<rparr>)) \<and>
         (findAttr (Attr root) [] ''href'' = None \<or>
          (findAttr (Attr root) [] ''href'' = Some a \<and>
             (length (Value a) \<le> 1 \<or> hd (Value a) \<noteq> CHR ''#'')) \<longrightarrow>
            substitute root mref = root \<and>
            (Children tk root = [] \<longrightarrow>
               flattenXML tk (Suc fuel) root mref = Some (Inr (marshal root))))"
proof (intro conjI impI)
  assume h: "findAttr (Attr root) [] ''href'' = Some a \<and> Value a = CHR ''#'' # i \<and> i \<noteq> [] \<and>
            mref i = Some el"
  then have fh: "findHref (Attr root) = Some i" by (simp add: findHref_Some)
  with h show s: "substitute root mref = root\<lparr>Data := Data el\<rparr>" by (simp add: substitute_def)
  from flattenXML_substitute [of tk fuel root mref] s
  show "flattenXML tk fuel root mref = flattenXML tk fuel (root\<lparr>Data := Data el\<rparr>) mref" by simp
  assume "Children tk (root\<lparr>Data := Data el\<rparr>) = []"
  with s assms show "flattenXML tk (Suc fuel) root mref = Some (Inr (marshal (root\<lparr>Data := Data el\<rparr>)))"
    by (simp add: flattenXML_Suc)
next
  assume "flattenXML tk fuel root mref = Some (Inr out)"
  from flattenXML_shape [OF this assms]
  show "\<exists>content. out = marshal \<lparr>Name = Name root, Attr = Attr root, Data = content\<rparr>" .
next
  assume n: "findAttr (Attr root) [] ''href'' = None \<or>
          (findAttr (Attr root) [] ''href'' = Some a \<and>
             (length (Value a) \<le> 1 \<or> hd (Value a) \<noteq> CHR ''#''))"
  from findHref_None [OF this] show s: "substitute root mref = root" by (simp add: substitute_def)
  assume "Children tk root = []"
  with s assms show "flattenXML tk (Suc fuel) root mref = Some (Inr (marshal root))"
    by (simp add: flattenXML_Suc)
qed

lemma C8_facts:
  "findAttr (Attr (elt ''x'' [(''href'', ''#a'')] [])) [] ''href'' =
     Some \<lparr>AttrName = \<lparr>Space = [], Local = ''href''\<rparr>, Value = ''#a''\<rparr>"
  "indexOf twoRefsSiblings Map.empty ''a'' = Some (elt ''multiRef'' [(''id'', ''a'')] ''1'')"
  "Children rawTokens ((elt ''x'' [(''href'', ''#a'')] [])\<lparr>Data := Data (elt ''multiRef'' [(''id'', ''a'')] ''1'')\<rparr>) = []"
  "marshal ((elt ''x'' [(''href'', ''#a'')] [])\<lparr>Data := Data (elt ''multiRef'' [(''id'', ''a'')] ''1'')\<rparr>) =
     ''<x href=\"#a\">1</x>''"
  "findAttr (Attr (elt ''z'' [(''href'', ''http://h/'')] ''t'')) [] ''href'' =
     Some \<lparr>AttrName = \<lparr>Space = [], Local = ''href''\<rparr>, Value = ''http://h/''\<rparr>"
  "Children rawTokens (elt ''z'' [(''href'', ''http://h/'')] ''t'') = []"
  "marshal (elt ''z'' [(''href'', ''http://h/'')] ''t'') = ''<z href=\"http://h/\">t</z>''"
  by code_simp+

theorem C8_witness:
  "flattenXML rawTokens 1 (elt ''x'' [(''href'', ''#a'')] []) (indexOf twoRefsSiblings Map.empty) =
     Some (Inr ''<x href=\"#a\">1</x>'') \<and>
   flattenXML rawTokens 1 (elt ''z'' [(''href'', ''http://h/'')] ''t'') (indexOf twoRefsSiblings Map.empty) =
     Some (Inr ''<z href=\"http://h/\">t</z>'')"
proof -
  have x: "Local (Name (elt ''x'' [(''href'', ''#a'')] [])) \<noteq> ''multiRef''"
    and z: "Local (Name (elt ''z'' [(''href'', ''http://h/'')] ''t'')) \<noteq> ''multiRef''"
    by (simp_all add: elt_def)
  from C8_href_substitution [OF x, of "\<lparr>AttrName = \<lparr>Space = [], Local = ''href''\<rparr>, Value = ''#a''\<rparr>"
      "''a''" "indexOf twoRefsSiblings Map.empty" "elt ''multiRef'' [(''id'', ''a'')] ''1''" rawTokens 0]
    C8_facts
  have 1: "flattenXML rawTokens (Suc 0) (elt ''x'' [(''href'', ''#a'')] []) (indexOf twoRefsSiblings Map.empty) =
     Some (Inr ''<x href=\"#a\">1</x>'')" by simp
  from C8_href_substitution [OF z, of "\<lparr>AttrName = \<lparr>Space = [], Local = ''href''\<rparr>, Value = ''http://h/''\<rparr>"
      _ "indexOf twoRefsSiblings Map.empty" _ rawTokens 0]
    C8_facts
  have 2: "flattenXML rawTokens (Suc 0) (elt ''z'' [(''href'', ''http://h/'')] ''t'') (indexOf twoRefsSiblings Map.empty) =
     Some (Inr ''<z href=\"http://h/\">t</z>'')" by simp
  from 1 2 show ?thesis by simp
qed

text \<open>
  \<^bold>\<open>C9\<close> as stated fails: for \<^verbatim>\<open><a><b x='"'/></a>\<close> the stored content of \<open>a\<close> is
  \<^verbatim>\<open><b x="""></b>\<close>, parsing that content again fails with a syntax error, and \<open>Flatten\<close>
  returns a document and no error.
\<close>

theorem C9_counterexample:
  "elements rawTokens quoteDoc = Inr [elt ''a'' [] ''<b x=\"\"\"></b>''] \<and>
   elements rawTokens (Data (elt ''a'' [] ''<b x=\"\"\"></b>'')) =
     Inl (SyntaxError ''expected attribute name in element'') \<and>
   Flatten rawTokens 1 quoteDoc = Some (Inr ''<a><b x=\"\"\"></b></a>'')"
  by code_simp

text \<open>
  \<^bold>\<open>C9\<close>, amended (error propagation). A failure of the tree build on the input buffer is
  returned by \<open>buildMRef\<close>, by \<open>Flatten\<close> and by \<open>Unmarshal\<close>, and \<open>Flatten\<close> returns no other
  error. A failure to parse the stored content of an element again is not returned:
  \<open>Children\<close> answers the empty list, the index pass records the element and goes on,
  and the substitution pass emits the element with that content as it is.
\<close>

theorem C9_top_level_parse_errors_propagate:
  "(elements tk data = Inl e \<longrightarrow>
      buildMRef tk fuel data = Some (Inl e) \<and> Flatten tk fuel data = Some (Inl e) \<and>
      Unmarshal tk decode fuel data = Some (Inl e)) \<and>
   (Flatten tk fuel data = Some (Inl e) \<longrightarrow> elements tk data = Inl e) \<and>
   (elements tk (Data root) = Inl e \<longrightarrow>
      Children tk root = [] \<and>
      walkMultiRef tk (Suc fuel) root mref = Some (Inr (recordId root mref))) \<and>
   (elements tk (Data (substitute root mref)) = Inl e \<and> Local (Name root) \<noteq> ''multiRef'' \<longrightarrow>
      flattenXML tk (Suc fuel) root mref = Some (Inr (marshal (substitute root mref))))"
proof (intro conjI impI)
  assume a: "elements tk data = Inl e"
  then show "buildMRef tk fuel data = Some (Inl e)" by (simp add: buildMRef_def)
  from a show f: "Flatten tk fuel data = Some (Inl e)" by (simp add: Flatten_error_iff)
  then show "Unmarshal tk decode fuel data = Some (Inl e)" by (simp add: Unmarshal_def)
next
  assume "Flatten tk fuel data = Some (Inl e)"
  then show "elements tk data = Inl e" by (simp add: Flatten_error_iff)
next
  assume "elements tk (Data root) = Inl e"
  then show c: "Children tk root = []" by (simp add: Children_def)
  then show "walkMultiRef tk (Suc fuel) root mref = Some (Inr (recordId root mref))"
    by (simp add: recordId_def split: option.splits)
next
  assume "elements tk (Data (substitute root mref)) = Inl e \<and> Local (Name root) \<noteq> ''multiRef''"
  then show "flattenXML tk (Suc fuel) root mref = Some (Inr (marshal (substitute root mref)))"
    by (simp add: Children_def flattenXML_Suc)
qed

lemma C9_facts:
  "elements rawTokens truncatedDoc = Inl (SyntaxError ''unexpected EOF'')"
  "elements rawTokens (Data (elt ''a'' [] ''<b x=\"\"\"></b>'')) =
     Inl (SyntaxError ''expected attribute name in element'')"
  "substitute (elt ''a'' [] ''<b x=\"\"\"></b>'') Map.empty = elt ''a'' [] ''<b x=\"\"\"></b>''"
  "marshal (elt ''a'' [] ''<b x=\"\"\"></b>'') = ''<a><b x=\"\"\"></b></a>''"
  by code_simp+

theorem C9_witness:
  "elements rawTokens truncatedDoc = Inl (SyntaxError ''unexpected EOF'') \<and>
   Flatten rawTokens 7 truncatedDoc = Some (Inl (SyntaxError ''unexpected EOF'')) \<and>
   Unmarshal rawTokens (\<lambda>out. Inr out) 7 truncatedDoc = Some (Inl (SyntaxError ''unexpected EOF'')) \<and>
   Children rawTokens (elt ''a'' [] ''<b x=\"\"\"></b>'') = [] \<and>
   flattenXML rawTokens (Suc 0) (elt ''a'' [] ''<b x=\"\"\"></b>'') Map.empty = Some (Inr ''<a><b x=\"\"\"></b></a>'')"
proof -
  have n: "Local (Name (elt ''a'' [] ''<b x=\"\"\"></b>'')) \<noteq> ''multiRef''" by (simp add: elt_def)
  note t1 = C9_top_level_parse_errors_propagate [of rawTokens truncatedDoc "SyntaxError ''unexpected EOF''" 7
      "\<lambda>out. Inr out"]
  from t1 C9_facts(1)
  have 1: "Flatten rawTokens 7 truncatedDoc = Some (Inl (SyntaxError ''unexpected EOF''))"
    "Unmarshal rawTokens (\<lambda>out. Inr out) 7 truncatedDoc = Some (Inl (SyntaxError ''unexpected EOF''))"
    by blast+
  note t2 = C9_top_level_parse_errors_propagate [of rawTokens _ "SyntaxError ''expected attribute name in element''" 0
      _ "elt ''a'' [] ''<b x=\"\"\"></b>''" Map.empty, unfolded C9_facts(3) C9_facts(4)]
  from t2 C9_facts(2) n
  have 2: "Children rawTokens (elt ''a'' [] ''<b x=\"\"\"></b>'') = []"
    "flattenXML rawTokens (Suc 0) (elt ''a'' [] ''<b x=\"\"\"></b>'') Map.empty = Some (Inr ''<a><b x=\"\"\"></b></a>'')"
    by blast+
  from 1 2 C9_facts(1) show ?thesis by blast
qed

text \<open>
  \<^bold>\<open>C10\<close> (request): what the code does. A request returned by \<open>NewRequest\<close> has method
  \<open>POST\<close>; its header has exactly three fields: \<open>SOAPAction\<close> (stored under the canonical
  key \<open>Soapaction\<close>) with the empty string as only value, \<open>Content-Type\<close> with the value
  \<open>text/xml\<close>, and a field \<open>charset\<close> (canonical key \<open>Charset\<close>) with the value \<open>utf-8\<close>.
  The content type so has no charset: \<^verbatim>\<open>req.Header.Set("charset", "utf-8")\<close> sets a header
  field of its own, and the value of \<open>Content-Type\<close> has no parameter.
\<close>

theorem C10_NewRequest_method_and_headers:
  assumes "NewRequest parseURL url body = Inr req"
  shows "Method req = ''POST'' \<and>
         Header req (CanonicalMIMEHeaderKey ''SOAPAction'') = Some [[]] \<and>
         headerGet (Header req) ''SOAPAction'' = [] \<and>
         Header req (CanonicalMIMEHeaderKey ''Content-Type'') = Some [''text/xml''] \<and>
         headerGet (Header req) ''Content-Type'' = ''text/xml'' \<and>
         Header req (CanonicalMIMEHeaderKey ''charset'') = Some [''utf-8''] \<and>
         headerGet (Header req) ''charset'' = ''utf-8'' \<and>
         dom (Header req) = {''Soapaction'', ''Content-Type'', ''Charset''} \<and>
         parseURL url = Inr (URL req) \<and> Body req = body"
  using assms
  by (auto simp: NewRequest_def httpNewRequest_def headerSet_def headerGet_def canonical_keys
      split: sum.splits if_splits)

theorem C10_witness:
  "\<exists>req. NewRequest (Inr :: string \<Rightarrow> error + string) ''http://example.org/soap'' ''<x/>'' = Inr req \<and>
     Method req = ''POST'' \<and>
     ''Soapaction'' \<in> dom (Header req) \<and>
     headerGet (Header req) ''SOAPAction'' = [] \<and>
     headerGet (Header req) ''Content-Type'' = ''text/xml'' \<and>
     headerGet (Header req) ''charset'' = ''utf-8''"
proof -
  obtain req where r: "NewRequest (Inr :: string \<Rightarrow> error + string) ''http://example.org/soap'' ''<x/>'' = Inr req"
    by (simp add: NewRequest_def httpNewRequest_def)
  from C10_NewRequest_method_and_headers [OF r] r show ?thesis by auto
qed

end
